theory Spec2Isabelle
  imports Main
begin

section \<open>The editor's data, as the extension sees it\<close>

text \<open>
  The extension computes with JavaScript numbers and with three classes of the editor's
  interface: \<open>Position\<close>, \<open>Selection\<close> and \<open>TextDocument\<close>. Line and column numbers
  of a constructed position are never negative (the constructor of \<open>Position\<close> throws
  on a negative argument), so a position holds naturals, while the arithmetic of the
  extension (\<open>lineCount - 1\<close>, \<open>bottomLine - 1\<close>) is done on integers. Everything that
  throws is a value \<open>Inl e\<close> of the result type.
\<close>

datatype error = IllegalArgument | IllegalLine

definition bindE :: "error + 'a \<Rightarrow> ('a \<Rightarrow> error + 'b) \<Rightarrow> error + 'b" where
  "bindE m f = (case m of Inl e \<Rightarrow> Inl e | Inr x \<Rightarrow> f x)"

record position =
  line :: nat
  character :: nat

text \<open>\<open>new vscode.Position(line, character)\<close>: throws on a negative argument.\<close>

definition newPosition :: "int \<Rightarrow> int \<Rightarrow> error + position" where
  "newPosition l c =
     (if l < 0 \<or> c < 0 then Inl IllegalArgument
      else Inr \<lparr>line = nat l, character = nat c\<rparr>)"

definition isBefore :: "position \<Rightarrow> position \<Rightarrow> bool" where
  "isBefore p q \<longleftrightarrow> line p < line q \<or> (line p = line q \<and> character p < character q)"

record selection =
  anchor :: position
  active :: position

text \<open>
  A selection is a range: \<open>start\<close> is the earlier of anchor and active in document
  order, \<open>end\<close> the later, and the selection is empty when the two coincide.
\<close>

definition sel_start :: "selection \<Rightarrow> position" where
  "sel_start s = (if isBefore (active s) (anchor s) then active s else anchor s)"

definition sel_end :: "selection \<Rightarrow> position" where
  "sel_end s = (if isBefore (active s) (anchor s) then anchor s else active s)"

definition isEmpty :: "selection \<Rightarrow> bool" where
  "isEmpty s \<longleftrightarrow> sel_start s = sel_end s"

text \<open>
  A document is the list of its lines' texts; only the length of a text is read.
  \<open>doc.lineAt(n)\<close> throws when \<open>n\<close> is not the index of a line; the line it returns
  carries its number and its text, and the end of its range is the position after the
  last character of the text.
\<close>

type_synonym document = "string list"

record textLine =
  lineNumber :: nat
  lineText :: string

definition lineCount :: "document \<Rightarrow> int" where
  "lineCount doc = int (length doc)"

definition lineAt :: "document \<Rightarrow> int \<Rightarrow> error + textLine" where
  "lineAt doc n =
     (if n < 0 \<or> lineCount doc \<le> n then Inl IllegalLine
      else Inr \<lparr>lineNumber = nat n, lineText = doc ! nat n\<rparr>)"

definition range_end :: "textLine \<Rightarrow> position" where
  "range_end tline = \<lparr>line = lineNumber tline, character = length (lineText tline)\<rparr>"

text \<open>
  The selections an editor hands to a command lie inside its document: every line is
  the index of a line and every column is at most the length of that line's text.
\<close>

definition validPosition :: "document \<Rightarrow> position \<Rightarrow> bool" where
  "validPosition doc p \<longleftrightarrow> line p < length doc \<and> character p \<le> length (doc ! line p)"

definition validSelection :: "document \<Rightarrow> selection \<Rightarrow> bool" where
  "validSelection doc s \<longleftrightarrow> validPosition doc (anchor s) \<and> validPosition doc (active s)"

section \<open>Helpers shared by both variants of the extension\<close>

definition posLineStart :: "document \<Rightarrow> int \<Rightarrow> error + position" where
  "posLineStart doc ln =
     (let clamped = max 0 (min ln (lineCount doc - 1)) in newPosition clamped 0)"

definition posEndForExclusiveLine :: "document \<Rightarrow> int \<Rightarrow> error + position" where
  "posEndForExclusiveLine doc exclLine =
     (if exclLine < lineCount doc then newPosition exclLine 0
      else bindE (lineAt doc (lineCount doc - 1)) (\<lambda>tline. Inr (range_end tline)))"

definition buildSelection :: "document \<Rightarrow> int \<Rightarrow> int \<Rightarrow> bool \<Rightarrow> error + selection" where
  "buildSelection doc topL bottomExclusive anchorAtEnd =
     bindE (posLineStart doc topL) (\<lambda>startPos.
     bindE (posEndForExclusiveLine doc bottomExclusive) (\<lambda>endPos.
       Inr (if anchorAtEnd then \<lparr>anchor = endPos, active = startPos\<rparr>
            else \<lparr>anchor = startPos, active = endPos\<rparr>)))"

definition clamp :: "int \<Rightarrow> int \<Rightarrow> int \<Rightarrow> int" where
  "clamp n lo hi = max lo (min hi n)"

text \<open>The two ends of a selection as the extension orders them.\<close>

definition pMin :: "selection \<Rightarrow> position" where
  "pMin sel = (if isBefore (sel_start sel) (sel_end sel) then sel_start sel else sel_end sel)"

definition pMax :: "selection \<Rightarrow> position" where
  "pMax sel = (if isBefore (sel_start sel) (sel_end sel) then sel_end sel else sel_start sel)"

text \<open>
  A command replaces the editor's selections by the images of the current ones, in
  order; when the callback throws for one selection the command throws and nothing is
  replaced.
\<close>

record editor =
  document :: document
  selections :: "selection list"

fun mapE :: "('a \<Rightarrow> error + 'b) \<Rightarrow> 'a list \<Rightarrow> error + 'b list" where
  "mapE f [] = Inr []"
| "mapE f (x # xs) = bindE (f x) (\<lambda>y. bindE (mapE f xs) (\<lambda>ys. Inr (y # ys)))"

definition command :: "(document \<Rightarrow> selection \<Rightarrow> error + selection) \<Rightarrow> editor \<Rightarrow> error + editor" where
  "command f ed =
     bindE (mapE (f (document ed)) (selections ed)) (\<lambda>sels. Inr (ed\<lparr>selections := sels\<rparr>))"

section \<open>The variant with the partial-selection test (src/unnamed/part_001)\<close>

definition hasPartialLineSelection :: "selection \<Rightarrow> document \<Rightarrow> error + bool" where
  "hasPartialLineSelection sel doc =
     (if isEmpty sel then Inr False
      else if character (pMin sel) \<noteq> 0 then Inr True
      else if line (pMin sel) = line (pMax sel) then
        bindE (lineAt doc (int (line (pMin sel))))
          (\<lambda>tline. Inr (character (pMax sel) < length (lineText tline)))
      else Inr (character (pMax sel) \<noteq> 0))"

definition fullLineRange :: "selection \<Rightarrow> document \<Rightarrow> error + (int \<times> int)" where
  "fullLineRange sel doc =
     (if isEmpty sel then
        (let L = int (line (active sel)) in Inr (L, min (L + 1) (lineCount doc)))
      else
        bindE (hasPartialLineSelection sel doc) (\<lambda>partial.
          if partial then
            (let topLine = int (line (pMin sel));
                 bottomLine = int (line (pMax sel));
                 actualBottomLine =
                   (if character (pMax sel) = 0 then bottomLine - 1 else bottomLine)
             in Inr (topLine, actualBottomLine + 1))
          else Inr (int (line (pMin sel)), int (line (pMax sel)))))"

text \<open>The callbacks that the four commands map over the selections.\<close>

definition outwardsDown_sel :: "document \<Rightarrow> selection \<Rightarrow> error + selection" where
  "outwardsDown_sel doc sel =
     (if isEmpty sel then
        (let L = int (line (active sel)) in buildSelection doc L (L + 1) False)
      else
        bindE (hasPartialLineSelection sel doc) (\<lambda>partial.
          if partial then
            bindE (fullLineRange sel doc) (\<lambda>(topL, botEx). buildSelection doc topL botEx False)
          else
            bindE (fullLineRange sel doc) (\<lambda>(topL, botEx).
              buildSelection doc topL (if botEx < lineCount doc then botEx + 1 else botEx) False)))"

definition inwardsDown_sel :: "document \<Rightarrow> selection \<Rightarrow> error + selection" where
  "inwardsDown_sel doc sel =
     bindE (hasPartialLineSelection sel doc) (\<lambda>partial.
       if partial then
         bindE (fullLineRange sel doc) (\<lambda>(topL, botEx). buildSelection doc topL botEx False)
       else
         bindE (fullLineRange sel doc) (\<lambda>(topL, botEx).
           let size = botEx - topL in
           if size \<le> 1 then
             bindE (posLineStart doc topL) (\<lambda>caret. Inr \<lparr>anchor = caret, active = caret\<rparr>)
           else buildSelection doc topL (botEx - 1) False))"

definition outwardsUp_sel :: "document \<Rightarrow> selection \<Rightarrow> error + selection" where
  "outwardsUp_sel doc sel =
     (if isEmpty sel then
        (let L = int (line (active sel)) in buildSelection doc L (L + 1) True)
      else
        bindE (hasPartialLineSelection sel doc) (\<lambda>partial.
          if partial then
            bindE (fullLineRange sel doc) (\<lambda>(topL, botEx). buildSelection doc topL botEx True)
          else
            bindE (fullLineRange sel doc) (\<lambda>(topL, botEx).
              buildSelection doc (if topL > 0 then topL - 1 else topL) botEx True)))"

definition inwardsUp_sel :: "document \<Rightarrow> selection \<Rightarrow> error + selection" where
  "inwardsUp_sel doc sel =
     bindE (hasPartialLineSelection sel doc) (\<lambda>partial.
       if partial then
         bindE (fullLineRange sel doc) (\<lambda>(topL, botEx). buildSelection doc topL botEx True)
       else
         bindE (fullLineRange sel doc) (\<lambda>(topL, botEx).
           let size = botEx - topL in
           if size \<le> 1 then
             (let bottomLine = clamp (botEx - 1) 0 (lineCount doc - 1) in
              bindE (posLineStart doc bottomLine) (\<lambda>caret. Inr \<lparr>anchor = caret, active = caret\<rparr>))
           else buildSelection doc (topL + 1) botEx True))"

definition outwardsDown :: "editor \<Rightarrow> error + editor" where
  "outwardsDown = command outwardsDown_sel"

definition inwardsDown :: "editor \<Rightarrow> error + editor" where
  "inwardsDown = command inwardsDown_sel"

definition outwardsUp :: "editor \<Rightarrow> error + editor" where
  "outwardsUp = command outwardsUp_sel"

definition inwardsUp :: "editor \<Rightarrow> error + editor" where
  "inwardsUp = command inwardsUp_sel"

section \<open>The variant without the partial-selection test (src/src/extension.ts)\<close>

definition fullLineRange_ts :: "selection \<Rightarrow> document \<Rightarrow> int \<times> int" where
  "fullLineRange_ts sel doc =
     (if isEmpty sel then
        (let L = int (line (active sel)) in (L, min (L + 1) (lineCount doc)))
      else
        (let topL = int (line (pMin sel));
             bottomExclusive =
               (if character (pMax sel) = 0 then int (line (pMax sel))
                else min (int (line (pMax sel)) + 1) (lineCount doc))
         in if bottomExclusive \<le> topL then (topL, min (topL + 1) (lineCount doc))
            else (topL, bottomExclusive)))"

definition outwardsDown_ts_sel :: "document \<Rightarrow> selection \<Rightarrow> error + selection" where
  "outwardsDown_ts_sel doc sel =
     (if isEmpty sel then
        (let L = int (line (active sel)) in buildSelection doc L (L + 1) False)
      else
        (case fullLineRange_ts sel doc of (topL, botEx) \<Rightarrow>
           buildSelection doc topL (if botEx < lineCount doc then botEx + 1 else botEx) False))"

definition inwardsDown_ts_sel :: "document \<Rightarrow> selection \<Rightarrow> error + selection" where
  "inwardsDown_ts_sel doc sel =
     (case fullLineRange_ts sel doc of (topL, botEx) \<Rightarrow>
        let size = botEx - topL in
        if size \<le> 1 then
          bindE (posLineStart doc topL) (\<lambda>caret. Inr \<lparr>anchor = caret, active = caret\<rparr>)
        else buildSelection doc topL (botEx - 1) False)"

definition outwardsUp_ts_sel :: "document \<Rightarrow> selection \<Rightarrow> error + selection" where
  "outwardsUp_ts_sel doc sel =
     (if isEmpty sel then
        (let L = int (line (active sel)) in buildSelection doc L (L + 1) True)
      else
        (case fullLineRange_ts sel doc of (topL, botEx) \<Rightarrow>
           buildSelection doc (if topL > 0 then topL - 1 else topL) botEx True))"

definition inwardsUp_ts_sel :: "document \<Rightarrow> selection \<Rightarrow> error + selection" where
  "inwardsUp_ts_sel doc sel =
     (case fullLineRange_ts sel doc of (topL, botEx) \<Rightarrow>
        let size = botEx - topL in
        if size \<le> 1 then
          (let bottomLine = clamp (botEx - 1) 0 (lineCount doc - 1) in
           bindE (posLineStart doc bottomLine) (\<lambda>caret. Inr \<lparr>anchor = caret, active = caret\<rparr>))
        else buildSelection doc (topL + 1) botEx True)"

definition outwardsDown_ts :: "editor \<Rightarrow> error + editor" where
  "outwardsDown_ts = command outwardsDown_ts_sel"

definition inwardsDown_ts :: "editor \<Rightarrow> error + editor" where
  "inwardsDown_ts = command inwardsDown_ts_sel"

definition outwardsUp_ts :: "editor \<Rightarrow> error + editor" where
  "outwardsUp_ts = command outwardsUp_ts_sel"

definition inwardsUp_ts :: "editor \<Rightarrow> error + editor" where
  "inwardsUp_ts = command inwardsUp_ts_sel"

section \<open>Notions used to state the properties\<close>

text \<open>
  The end-of-document position is the end of the last line's text. A selection is
  line-aligned when it is a caret at column 0 of a line of the document, or a
  non-empty selection that starts at column 0 of a line and ends at column 0 of a
  line or at the end of the document.
\<close>

definition endOfDocument :: "document \<Rightarrow> position" where
  "endOfDocument doc = \<lparr>line = length doc - 1, character = length (doc ! (length doc - 1))\<rparr>"

definition atLineStart :: "document \<Rightarrow> position \<Rightarrow> bool" where
  "atLineStart doc p \<longleftrightarrow> character p = 0 \<and> line p < length doc"

definition lineAligned :: "document \<Rightarrow> selection \<Rightarrow> bool" where
  "lineAligned doc s \<longleftrightarrow>
     (if isEmpty s then atLineStart doc (active s)
      else atLineStart doc (sel_start s) \<and>
           (atLineStart doc (sel_end s) \<or> sel_end s = endOfDocument doc))"

text \<open>
  The last line a selection covers: both resolvers leave the line of the later end out
  when that end is at its column 0 (\<open>actualBottomLine\<close> in src/unnamed/part_001), and
  a caret covers its own line.
\<close>

definition actualBottomLine :: "selection \<Rightarrow> nat" where
  "actualBottomLine sel =
     (if \<not> isEmpty sel \<and> character (pMax sel) = 0 then line (pMax sel) - 1 else line (pMax sel))"

text \<open>
  The size \<open>botEx - top\<close> of the range that the guarded resolver of
  src/src/extension.ts returns for a selection.
\<close>

definition rangeSize_ts :: "document \<Rightarrow> selection \<Rightarrow> int" where
  "rangeSize_ts doc sel = (case fullLineRange_ts sel doc of (topL, botEx) \<Rightarrow> botEx - topL)"

section \<open>Basic facts\<close>

lemma bindE_Inr [simp]: "bindE (Inr x) f = f x"
  by (simp add: bindE_def)

lemma bindE_Inl [simp]: "bindE (Inl e) f = Inl e"
  by (simp add: bindE_def)

lemma pMin_start: "pMin s = sel_start s"
  by (cases "anchor s"; cases "active s") (auto simp: pMin_def sel_start_def sel_end_def isBefore_def)

lemma pMax_end: "pMax s = sel_end s"
  by (cases "anchor s"; cases "active s") (auto simp: pMax_def sel_start_def sel_end_def isBefore_def)

lemma not_before_end_start: "\<not> isBefore (sel_end s) (sel_start s)"
  by (auto simp: sel_start_def sel_end_def isBefore_def)

lemma isEmpty_active: "isEmpty s \<Longrightarrow> active s = sel_start s"
  by (auto simp: isEmpty_def sel_start_def sel_end_def split: if_splits)

lemma start_le_end: "line (sel_start s) \<le> line (sel_end s)"
  using not_before_end_start [of s] by (auto simp: isBefore_def)

lemma nonempty_before: "\<not> isEmpty s \<Longrightarrow> isBefore (sel_start s) (sel_end s)"
  using not_before_end_start [of s]
  by (cases "sel_start s"; cases "sel_end s") (auto simp: isEmpty_def isBefore_def)

lemma valid_start: "validSelection doc s \<Longrightarrow> validPosition doc (sel_start s)"
  by (simp add: validSelection_def sel_start_def)

lemma valid_end: "validSelection doc s \<Longrightarrow> validPosition doc (sel_end s)"
  by (simp add: validSelection_def sel_end_def)

lemma posLineStart_eq:
  "posLineStart doc ln = Inr \<lparr>line = nat (max 0 (min ln (lineCount doc - 1))), character = 0\<rparr>"
  by (simp add: posLineStart_def newPosition_def)

lemma posLineStart_inside:
  "0 \<le> ln \<Longrightarrow> ln < lineCount doc \<Longrightarrow> posLineStart doc ln = Inr \<lparr>line = nat ln, character = 0\<rparr>"
  by (simp add: posLineStart_eq max_def min_def)

lemma posEnd_inside:
  "0 \<le> e \<Longrightarrow> e < lineCount doc \<Longrightarrow>
   posEndForExclusiveLine doc e = Inr \<lparr>line = nat e, character = 0\<rparr>"
  by (simp add: posEndForExclusiveLine_def newPosition_def)

lemma posEnd_past:
  "lineCount doc \<le> e \<Longrightarrow> doc \<noteq> [] \<Longrightarrow> posEndForExclusiveLine doc e = Inr (endOfDocument doc)"
  by (cases doc) (auto simp: posEndForExclusiveLine_def lineAt_def lineCount_def range_end_def
      endOfDocument_def nat_diff_distrib)

lemma posEnd_empty_doc:
  "0 \<le> e \<Longrightarrow> posEndForExclusiveLine [] e = Inl IllegalLine"
  by (simp add: posEndForExclusiveLine_def lineAt_def lineCount_def)

lemma sel_ends_ordered:
  assumes "\<not> isBefore e s"
  shows "sel_start \<lparr>anchor = s, active = e\<rparr> = s" "sel_end \<lparr>anchor = s, active = e\<rparr> = e"
    "sel_start \<lparr>anchor = e, active = s\<rparr> = s" "sel_end \<lparr>anchor = e, active = s\<rparr> = e"
  using assms by (cases s; cases e; auto simp: sel_start_def sel_end_def isBefore_def)+

section \<open>Selections inside the document\<close>

lemma lineAt_inside:
  "n < length doc \<Longrightarrow> lineAt doc (int n) = Inr \<lparr>lineNumber = n, lineText = doc ! n\<rparr>"
  by (simp add: lineAt_def lineCount_def)

lemma hasPartial_defined:
  assumes "line (sel_start sel) < length doc"
  shows "\<exists>p. hasPartialLineSelection sel doc = Inr p"
  using assms by (auto simp: hasPartialLineSelection_def pMin_start lineAt_inside)

lemma nonempty_char0_lines:
  assumes "\<not> isEmpty s" "character (sel_end s) = 0"
  shows "line (sel_start s) < line (sel_end s)"
  using nonempty_before [OF assms(1)] assms(2) by (simp add: isBefore_def)

lemma fullLineRange_valid:
  assumes "validSelection doc sel"
  shows "\<exists>topL botEx. fullLineRange sel doc = Inr (topL, botEx)
           \<and> topL = int (line (sel_start sel)) \<and> topL \<le> botEx \<and> botEx \<le> lineCount doc
           \<and> int (line (sel_end sel)) \<le> botEx \<and> botEx \<le> int (line (sel_end sel)) + 1
           \<and> (\<not> isEmpty sel \<and> character (sel_end sel) = 0 \<longrightarrow> botEx = int (line (sel_end sel)))"
proof -
  from assms have ls: "line (sel_start sel) < length doc" and le: "line (sel_end sel) < length doc"
    using valid_start valid_end by (auto simp: validPosition_def)
  note se = start_le_end [of sel]
  show ?thesis
  proof (cases "isEmpty sel")
    case True
    then have "sel_end sel = sel_start sel" "active sel = sel_start sel"
      by (simp_all add: isEmpty_def isEmpty_active)
    with True ls show ?thesis
      by (simp add: fullLineRange_def lineCount_def Let_def)
  next
    case False
    from hasPartial_defined [OF ls] obtain p where p: "hasPartialLineSelection sel doc = Inr p" ..
    show ?thesis
    proof (cases "character (sel_end sel) = 0")
      case True
      with False have "line (sel_start sel) < line (sel_end sel)" by (rule nonempty_char0_lines)
      with False p True le show ?thesis
        by (simp add: fullLineRange_def pMin_start pMax_end lineCount_def Let_def)
    next
      case c: False
      with False p le se show ?thesis
        by (simp add: fullLineRange_def pMin_start pMax_end lineCount_def Let_def)
    qed
  qed
qed

lemma fullLineRange_ts_valid:
  assumes "validSelection doc sel"
  shows "\<exists>topL botEx. fullLineRange_ts sel doc = (topL, botEx)
           \<and> topL = int (line (sel_start sel)) \<and> topL < botEx \<and> botEx \<le> lineCount doc
           \<and> int (line (sel_end sel)) \<le> botEx \<and> botEx \<le> int (line (sel_end sel)) + 1
           \<and> (\<not> isEmpty sel \<and> character (sel_end sel) = 0 \<longrightarrow> botEx = int (line (sel_end sel)))"
proof -
  from assms have ls: "line (sel_start sel) < length doc" and le: "line (sel_end sel) < length doc"
    using valid_start valid_end by (auto simp: validPosition_def)
  note se = start_le_end [of sel]
  show ?thesis
  proof (cases "isEmpty sel")
    case True
    then have "sel_end sel = sel_start sel" "active sel = sel_start sel"
      by (simp_all add: isEmpty_def isEmpty_active)
    with True ls show ?thesis
      by (simp add: fullLineRange_ts_def lineCount_def Let_def)
  next
    case False
    show ?thesis
    proof (cases "character (sel_end sel) = 0")
      case True
      with False have "line (sel_start sel) < line (sel_end sel)" by (rule nonempty_char0_lines)
      with False True le show ?thesis
        by (simp add: fullLineRange_ts_def pMin_start pMax_end lineCount_def Let_def)
    next
      case c: False
      with False le se show ?thesis
        by (simp add: fullLineRange_ts_def pMin_start pMax_end lineCount_def Let_def)
    qed
  qed
qed

lemma hasPartial_True_nonempty: "hasPartialLineSelection sel doc = Inr True \<Longrightarrow> \<not> isEmpty sel"
  by (auto simp: hasPartialLineSelection_def)

lemma buildSelection_inside:
  assumes "0 \<le> t" "t < lineCount doc" "0 \<le> b" "b < lineCount doc"
  shows "buildSelection doc t b pin =
           Inr (if pin then \<lparr>anchor = \<lparr>line = nat b, character = 0\<rparr>, active = \<lparr>line = nat t, character = 0\<rparr>\<rparr>
                else \<lparr>anchor = \<lparr>line = nat t, character = 0\<rparr>, active = \<lparr>line = nat b, character = 0\<rparr>\<rparr>)"
  using assms by (simp add: buildSelection_def posLineStart_inside posEnd_inside)

lemma buildSelection_past:
  assumes "0 \<le> t" "t < lineCount doc" "lineCount doc \<le> b"
  shows "buildSelection doc t b pin =
           Inr (if pin then \<lparr>anchor = endOfDocument doc, active = \<lparr>line = nat t, character = 0\<rparr>\<rparr>
                else \<lparr>anchor = \<lparr>line = nat t, character = 0\<rparr>, active = endOfDocument doc\<rparr>)"
proof -
  from assms have "doc \<noteq> []" by (auto simp: lineCount_def)
  with assms show ?thesis
    by (simp add: buildSelection_def posLineStart_inside posEnd_past)
qed

lemma caret_isEmpty [simp]: "isEmpty \<lparr>anchor = p, active = p\<rparr>"
  by (simp add: isEmpty_def sel_start_def sel_end_def)

lemma sel_at_line_starts:
  assumes "m < n"
  shows "\<not> isEmpty \<lparr>anchor = \<lparr>line = m, character = 0\<rparr>, active = \<lparr>line = n, character = 0\<rparr>\<rparr>"
    "\<not> isEmpty \<lparr>anchor = \<lparr>line = n, character = 0\<rparr>, active = \<lparr>line = m, character = 0\<rparr>\<rparr>"
    "pMin \<lparr>anchor = \<lparr>line = m, character = 0\<rparr>, active = \<lparr>line = n, character = 0\<rparr>\<rparr> = \<lparr>line = m, character = 0\<rparr>"
    "pMax \<lparr>anchor = \<lparr>line = m, character = 0\<rparr>, active = \<lparr>line = n, character = 0\<rparr>\<rparr> = \<lparr>line = n, character = 0\<rparr>"
    "pMin \<lparr>anchor = \<lparr>line = n, character = 0\<rparr>, active = \<lparr>line = m, character = 0\<rparr>\<rparr> = \<lparr>line = m, character = 0\<rparr>"
    "pMax \<lparr>anchor = \<lparr>line = n, character = 0\<rparr>, active = \<lparr>line = m, character = 0\<rparr>\<rparr> = \<lparr>line = n, character = 0\<rparr>"
  using assms by (simp_all add: pMin_start pMax_end isEmpty_def sel_start_def sel_end_def isBefore_def)

section \<open>The shape of each result on a selection inside the document\<close>

lemma empty_not_partial: "isEmpty sel \<Longrightarrow> hasPartialLineSelection sel doc = Inr False"
  by (simp add: hasPartialLineSelection_def)

lemma valid_resolved:
  assumes "validSelection doc sel"
  obtains topL botEx p where
    "hasPartialLineSelection sel doc = Inr p"
    "fullLineRange sel doc = Inr (topL, botEx)"
    "topL = int (line (sel_start sel))" "topL \<le> botEx" "botEx \<le> lineCount doc"
    "topL < lineCount doc"
    "int (line (sel_end sel)) \<le> botEx" "botEx \<le> int (line (sel_end sel)) + 1"
    "\<not> isEmpty sel \<and> character (sel_end sel) = 0 \<longrightarrow> botEx = int (line (sel_end sel))"
    "isEmpty sel \<longrightarrow> \<not> p \<and> botEx = topL + 1 \<and> int (line (active sel)) = topL"
proof -
  from assms have ls: "line (sel_start sel) < length doc"
    using valid_start by (auto simp: validPosition_def)
  from hasPartial_defined [OF ls] obtain p where p: "hasPartialLineSelection sel doc = Inr p" ..
  from fullLineRange_valid [OF assms] obtain topL botEx where
    r: "fullLineRange sel doc = Inr (topL, botEx)" "topL = int (line (sel_start sel))"
      "topL \<le> botEx" "botEx \<le> lineCount doc"
      "int (line (sel_end sel)) \<le> botEx" "botEx \<le> int (line (sel_end sel)) + 1"
      "\<not> isEmpty sel \<and> character (sel_end sel) = 0 \<longrightarrow> botEx = int (line (sel_end sel))"
    by blast
  have e: "isEmpty sel \<longrightarrow> \<not> p \<and> botEx = topL + 1 \<and> int (line (active sel)) = topL"
  proof
    assume em: "isEmpty sel"
    with p have "\<not> p" by (simp add: empty_not_partial)
    moreover from em have "active sel = sel_start sel" by (rule isEmpty_active)
    moreover from em r(1) ls \<open>active sel = sel_start sel\<close> have "botEx = topL + 1"
      by (simp add: fullLineRange_def Let_def lineCount_def)
    ultimately show "\<not> p \<and> botEx = topL + 1 \<and> int (line (active sel)) = topL"
      using r(2) by simp
  qed
  from ls r(2) have "topL < lineCount doc" by (simp add: lineCount_def)
  with p r e that show thesis by blast
qed

lemma outwardsDown_shape:
  assumes "validSelection doc sel" "fullLineRange sel doc = Inr (topL, botEx)"
  shows "\<exists>b. outwardsDown_sel doc sel = buildSelection doc topL b False
            \<and> botEx \<le> b \<and> b \<le> botEx + 1 \<and> b \<le> lineCount doc"
proof -
  from assms(1) obtain t' b' p where f:
    "hasPartialLineSelection sel doc = Inr p"
    "fullLineRange sel doc = Inr (t', b')"
    "b' \<le> lineCount doc"
    "isEmpty sel \<longrightarrow> \<not> p \<and> b' = t' + 1 \<and> int (line (active sel)) = t'"
    by (rule valid_resolved)
  with assms(2) have [simp]: "t' = topL" "b' = botEx" by simp_all
  show ?thesis
  proof (cases "isEmpty sel")
    case True
    with f show ?thesis by (auto simp: outwardsDown_sel_def Let_def)
  next
    case False
    with f show ?thesis by (cases p) (auto simp: outwardsDown_sel_def)
  qed
qed

lemma outwardsUp_shape:
  assumes "validSelection doc sel" "fullLineRange sel doc = Inr (topL, botEx)"
  shows "\<exists>t. outwardsUp_sel doc sel = buildSelection doc t botEx True
            \<and> 0 \<le> t \<and> t \<le> topL \<and> topL \<le> t + 1"
proof -
  from assms(1) obtain t' b' p where f:
    "hasPartialLineSelection sel doc = Inr p"
    "fullLineRange sel doc = Inr (t', b')"
    "t' = int (line (sel_start sel))"
    "isEmpty sel \<longrightarrow> \<not> p \<and> b' = t' + 1 \<and> int (line (active sel)) = t'"
    by (rule valid_resolved)
  with assms(2) have [simp]: "t' = topL" "b' = botEx" by simp_all
  from f(3) have "0 \<le> topL" by simp
  show ?thesis
  proof (cases "isEmpty sel")
    case True
    with f \<open>0 \<le> topL\<close> show ?thesis by (auto simp: outwardsUp_sel_def Let_def)
  next
    case False
    with f \<open>0 \<le> topL\<close> show ?thesis by (cases p) (auto simp: outwardsUp_sel_def)
  qed
qed

lemma inwardsDown_shape:
  assumes "validSelection doc sel" "fullLineRange sel doc = Inr (topL, botEx)"
  shows "(inwardsDown_sel doc sel =
            Inr \<lparr>anchor = \<lparr>line = nat topL, character = 0\<rparr>, active = \<lparr>line = nat topL, character = 0\<rparr>\<rparr>
          \<and> botEx \<le> topL + 1 \<and> hasPartialLineSelection sel doc = Inr False)
       \<or> (\<exists>b. inwardsDown_sel doc sel = buildSelection doc topL b False
            \<and> topL < b \<and> b \<le> botEx \<and> botEx \<le> b + 1)"
proof -
  from assms(1) obtain t' b' p where f:
    "hasPartialLineSelection sel doc = Inr p"
    "fullLineRange sel doc = Inr (t', b')"
    "t' = int (line (sel_start sel))" "t' \<le> b'" "t' < lineCount doc"
    "isEmpty sel \<longrightarrow> \<not> p \<and> b' = t' + 1 \<and> int (line (active sel)) = t'"
    "int (line (sel_end sel)) \<le> b'"
    "\<not> isEmpty sel \<and> character (sel_end sel) = 0 \<longrightarrow> b' = int (line (sel_end sel))"
    by (rule valid_resolved)
  with assms(2) have [simp]: "t' = topL" "b' = botEx" by simp_all
  from f(3) have t0: "0 \<le> topL" by simp
  show ?thesis
  proof (cases p)
    case True
    then have ne: "\<not> isEmpty sel" using f(1) by (auto dest: hasPartial_True_nonempty)
    have "topL < botEx"
    proof (cases "character (sel_end sel) = 0")
      case True
      with ne f(8) nonempty_char0_lines [OF ne True] f(3) show ?thesis by simp
    next
      case False
      with \<open>p\<close> f(1,2) ne start_le_end [of sel] show ?thesis
        by (simp add: fullLineRange_def Let_def pMin_start pMax_end)
    qed
    with True f show ?thesis by (auto simp: inwardsDown_sel_def)
  next
    case False
    with f t0 show ?thesis
      by (auto simp: inwardsDown_sel_def Let_def posLineStart_inside)
  qed
qed

lemma inwardsUp_shape:
  assumes "validSelection doc sel" "fullLineRange sel doc = Inr (topL, botEx)"
  shows "(\<exists>n. inwardsUp_sel doc sel =
            Inr \<lparr>anchor = \<lparr>line = n, character = 0\<rparr>, active = \<lparr>line = n, character = 0\<rparr>\<rparr>
          \<and> n < length doc \<and> botEx \<le> topL + 1 \<and> hasPartialLineSelection sel doc = Inr False)
       \<or> (\<exists>t. inwardsUp_sel doc sel = buildSelection doc t botEx True
            \<and> topL \<le> t \<and> t < botEx \<and> t \<le> topL + 1)"
proof -
  from assms(1) obtain t' b' p where f:
    "hasPartialLineSelection sel doc = Inr p"
    "fullLineRange sel doc = Inr (t', b')"
    "t' = int (line (sel_start sel))" "t' \<le> b'" "t' < lineCount doc"
    "isEmpty sel \<longrightarrow> \<not> p \<and> b' = t' + 1 \<and> int (line (active sel)) = t'"
    "int (line (sel_end sel)) \<le> b'"
    "\<not> isEmpty sel \<and> character (sel_end sel) = 0 \<longrightarrow> b' = int (line (sel_end sel))"
    by (rule valid_resolved)
  with assms(2) have [simp]: "t' = topL" "b' = botEx" by simp_all
  from f(3) have t0: "0 \<le> topL" by simp
  show ?thesis
  proof (cases p)
    case True
    then have ne: "\<not> isEmpty sel" using f(1) by (auto dest: hasPartial_True_nonempty)
    have "topL < botEx"
    proof (cases "character (sel_end sel) = 0")
      case True
      with ne f(8) nonempty_char0_lines [OF ne True] f(3) show ?thesis by simp
    next
      case False
      with \<open>p\<close> f(1,2) ne start_le_end [of sel] show ?thesis
        by (simp add: fullLineRange_def Let_def pMin_start pMax_end)
    qed
    with True f show ?thesis by (auto simp: inwardsUp_sel_def)
  next
    case False
    have "nat (max 0 (min (clamp (botEx - 1) 0 (lineCount doc - 1)) (lineCount doc - 1))) < length doc"
      using f(5) t0 by (auto simp: clamp_def lineCount_def)
    with False f t0 show ?thesis
      by (auto simp: inwardsUp_sel_def Let_def posLineStart_eq)
  qed
qed

lemma valid_resolved_ts:
  assumes "validSelection doc sel"
  obtains topL botEx where
    "fullLineRange_ts sel doc = (topL, botEx)"
    "topL = int (line (sel_start sel))" "topL < botEx" "botEx \<le> lineCount doc"
    "int (line (sel_end sel)) \<le> botEx" "botEx \<le> int (line (sel_end sel)) + 1"
    "\<not> isEmpty sel \<and> character (sel_end sel) = 0 \<longrightarrow> botEx = int (line (sel_end sel))"
    "isEmpty sel \<longrightarrow> botEx = topL + 1 \<and> int (line (active sel)) = topL"
proof -
  from assms have ls: "line (sel_start sel) < length doc"
    using valid_start by (auto simp: validPosition_def)
  from fullLineRange_ts_valid [OF assms] obtain topL botEx where
    r: "fullLineRange_ts sel doc = (topL, botEx)" "topL = int (line (sel_start sel))"
      "topL < botEx" "botEx \<le> lineCount doc"
      "int (line (sel_end sel)) \<le> botEx" "botEx \<le> int (line (sel_end sel)) + 1"
      "\<not> isEmpty sel \<and> character (sel_end sel) = 0 \<longrightarrow> botEx = int (line (sel_end sel))"
    by blast
  have e: "isEmpty sel \<longrightarrow> botEx = topL + 1 \<and> int (line (active sel)) = topL"
  proof
    assume em: "isEmpty sel"
    then have a: "active sel = sel_start sel" by (rule isEmpty_active)
    with em r(1) ls have "botEx = topL + 1"
      by (simp add: fullLineRange_ts_def Let_def lineCount_def)
    with a r(2) show "botEx = topL + 1 \<and> int (line (active sel)) = topL" by simp
  qed
  with r that show thesis by blast
qed

lemma outwardsDown_ts_shape:
  assumes "validSelection doc sel" "fullLineRange_ts sel doc = (topL, botEx)"
  shows "\<exists>b. outwardsDown_ts_sel doc sel = buildSelection doc topL b False
            \<and> botEx \<le> b \<and> b \<le> botEx + 1 \<and> b \<le> lineCount doc"
proof -
  from assms(1) obtain t' b' where f:
    "fullLineRange_ts sel doc = (t', b')"
    "b' \<le> lineCount doc"
    "isEmpty sel \<longrightarrow> b' = t' + 1 \<and> int (line (active sel)) = t'"
    by (rule valid_resolved_ts)
  with assms(2) have [simp]: "t' = topL" "b' = botEx" by simp_all
  from f assms(2) show ?thesis
    by (cases "isEmpty sel") (auto simp: outwardsDown_ts_sel_def Let_def)
qed

lemma outwardsUp_ts_shape:
  assumes "validSelection doc sel" "fullLineRange_ts sel doc = (topL, botEx)"
  shows "\<exists>t. outwardsUp_ts_sel doc sel = buildSelection doc t botEx True
            \<and> 0 \<le> t \<and> t \<le> topL \<and> topL \<le> t + 1"
proof -
  from assms(1) obtain t' b' where f:
    "fullLineRange_ts sel doc = (t', b')"
    "t' = int (line (sel_start sel))"
    "isEmpty sel \<longrightarrow> b' = t' + 1 \<and> int (line (active sel)) = t'"
    by (rule valid_resolved_ts)
  with assms(2) have [simp]: "t' = topL" "b' = botEx" by simp_all
  from f(2) have "0 \<le> topL" by simp
  with f assms(2) show ?thesis
    by (cases "isEmpty sel") (auto simp: outwardsUp_ts_sel_def Let_def)
qed

lemma inwardsDown_ts_shape:
  assumes "validSelection doc sel" "fullLineRange_ts sel doc = (topL, botEx)"
  shows "(inwardsDown_ts_sel doc sel =
            Inr \<lparr>anchor = \<lparr>line = nat topL, character = 0\<rparr>, active = \<lparr>line = nat topL, character = 0\<rparr>\<rparr>
          \<and> botEx \<le> topL + 1)
       \<or> (\<exists>b. inwardsDown_ts_sel doc sel = buildSelection doc topL b False
            \<and> topL < b \<and> b \<le> botEx \<and> botEx \<le> b + 1)"
proof -
  from assms(1) obtain t' b' where f:
    "fullLineRange_ts sel doc = (t', b')"
    "t' = int (line (sel_start sel))" "t' < lineCount doc"
    by (rule valid_resolved_ts) (auto simp: lineCount_def)
  with assms(2) have [simp]: "t' = topL" "b' = botEx" by simp_all
  from f(2) have "0 \<le> topL" by simp
  with f assms(2) show ?thesis
    by (auto simp: inwardsDown_ts_sel_def Let_def posLineStart_inside)
qed

lemma inwardsUp_ts_shape:
  assumes "validSelection doc sel" "fullLineRange_ts sel doc = (topL, botEx)"
  shows "(\<exists>n. inwardsUp_ts_sel doc sel =
            Inr \<lparr>anchor = \<lparr>line = n, character = 0\<rparr>, active = \<lparr>line = n, character = 0\<rparr>\<rparr>
          \<and> n < length doc \<and> botEx \<le> topL + 1)
       \<or> (\<exists>t. inwardsUp_ts_sel doc sel = buildSelection doc t botEx True
            \<and> topL \<le> t \<and> t < botEx \<and> t \<le> topL + 1)"
proof -
  from assms(1) obtain t' b' where f:
    "fullLineRange_ts sel doc = (t', b')"
    "t' = int (line (sel_start sel))" "t' < lineCount doc"
    by (rule valid_resolved_ts) (auto simp: lineCount_def)
  with assms(2) have [simp]: "t' = topL" "b' = botEx" by simp_all
  from f(2) have t0: "0 \<le> topL" by simp
  have "nat (max 0 (min (clamp (botEx - 1) 0 (lineCount doc - 1)) (lineCount doc - 1))) < length doc"
    using f(3) t0 by (auto simp: clamp_def lineCount_def)
  with f t0 assms(2) show ?thesis
    by (auto simp: inwardsUp_ts_sel_def Let_def posLineStart_eq)
qed

lemma build_ends:
  assumes "0 \<le> t" "t \<le> b" "t < lineCount doc"
  shows "\<exists>out. buildSelection doc t b pin = Inr out
           \<and> sel_start out = \<lparr>line = nat t, character = 0\<rparr>
           \<and> sel_end out =
               (if b < lineCount doc then \<lparr>line = nat b, character = 0\<rparr> else endOfDocument doc)"
proof (cases "b < lineCount doc")
  case True
  have "\<not> isBefore \<lparr>line = nat b, character = 0\<rparr> \<lparr>line = nat t, character = 0\<rparr>"
    using assms by (simp add: isBefore_def)
  from sel_ends_ordered [OF this] True assms show ?thesis
    by (cases pin) (simp_all add: buildSelection_inside)
next
  case False
  have "\<not> isBefore (endOfDocument doc) \<lparr>line = nat t, character = 0\<rparr>"
    using assms by (auto simp: isBefore_def endOfDocument_def lineCount_def)
  from sel_ends_ordered [OF this] False assms show ?thesis
    by (cases pin) (simp_all add: buildSelection_past)
qed

section \<open>Which end of the result stays on its line\<close>

lemma caret_ends [simp]:
  "sel_start \<lparr>anchor = p, active = p\<rparr> = p" "sel_end \<lparr>anchor = p, active = p\<rparr> = p"
  by (simp_all add: sel_start_def sel_end_def)

lemma top_pinned_build:
  assumes "T = buildSelection doc topL b pin" "topL = int (line (sel_start sel))"
    "topL \<le> b" "topL < lineCount doc"
  shows "\<exists>out. T = Inr out \<and> line (sel_start out) = line (sel_start sel)"
proof -
  from assms have "0 \<le> topL" by simp
  from build_ends [OF this assms(3,4), of pin] assms(1,2) show ?thesis by auto
qed

lemma pin_down:
  assumes v: "validSelection doc sel"
  shows "\<exists>out. outwardsDown_sel doc sel = Inr out \<and> line (sel_start out) = line (sel_start sel)"
    and "\<exists>out. inwardsDown_sel doc sel = Inr out \<and> line (sel_start out) = line (sel_start sel)"
proof -
  from v obtain topL botEx where f:
    "fullLineRange sel doc = Inr (topL, botEx)"
    "topL = int (line (sel_start sel))" "topL \<le> botEx" "topL < lineCount doc"
    by (rule valid_resolved)
  from outwardsDown_shape [OF v f(1)] obtain b where
    "outwardsDown_sel doc sel = buildSelection doc topL b False" "botEx \<le> b" by blast
  with f show "\<exists>out. outwardsDown_sel doc sel = Inr out \<and> line (sel_start out) = line (sel_start sel)"
    by (intro top_pinned_build [of _ doc topL b False]) simp_all
  from inwardsDown_shape [OF v f(1)]
  show "\<exists>out. inwardsDown_sel doc sel = Inr out \<and> line (sel_start out) = line (sel_start sel)"
  proof (elim disjE exE conjE)
    assume "inwardsDown_sel doc sel =
      Inr \<lparr>anchor = \<lparr>line = nat topL, character = 0\<rparr>, active = \<lparr>line = nat topL, character = 0\<rparr>\<rparr>"
    with f(2) show ?thesis by simp
  next
    fix b assume "inwardsDown_sel doc sel = buildSelection doc topL b False" "topL < b"
    with f show ?thesis
      by (intro top_pinned_build [of _ doc topL b False]) simp_all
  qed
qed

lemma pin_down_ts:
  assumes v: "validSelection doc sel"
  shows "\<exists>out. outwardsDown_ts_sel doc sel = Inr out \<and> line (sel_start out) = line (sel_start sel)"
    and "\<exists>out. inwardsDown_ts_sel doc sel = Inr out \<and> line (sel_start out) = line (sel_start sel)"
proof -
  from v obtain topL botEx where f:
    "fullLineRange_ts sel doc = (topL, botEx)"
    "topL = int (line (sel_start sel))" "topL < botEx" "botEx \<le> lineCount doc"
    by (rule valid_resolved_ts)
  then have tl: "topL < lineCount doc" by simp
  from outwardsDown_ts_shape [OF v f(1)] obtain b where
    "outwardsDown_ts_sel doc sel = buildSelection doc topL b False" "botEx \<le> b" by blast
  with f tl show "\<exists>out. outwardsDown_ts_sel doc sel = Inr out \<and> line (sel_start out) = line (sel_start sel)"
    by (intro top_pinned_build [of _ doc topL b False]) simp_all
  from inwardsDown_ts_shape [OF v f(1)]
  show "\<exists>out. inwardsDown_ts_sel doc sel = Inr out \<and> line (sel_start out) = line (sel_start sel)"
  proof (elim disjE exE conjE)
    assume "inwardsDown_ts_sel doc sel =
      Inr \<lparr>anchor = \<lparr>line = nat topL, character = 0\<rparr>, active = \<lparr>line = nat topL, character = 0\<rparr>\<rparr>"
    with f(2) show ?thesis by simp
  next
    fix b assume "inwardsDown_ts_sel doc sel = buildSelection doc topL b False" "topL < b"
    with f tl show ?thesis
      by (intro top_pinned_build [of _ doc topL b False]) simp_all
  qed
qed

section \<open>The size of the range handed to the builder\<close>

lemma caret_as_build:
  assumes "0 \<le> n" "n < lineCount doc"
  shows "buildSelection doc n n pin =
           Inr \<lparr>anchor = \<lparr>line = nat n, character = 0\<rparr>, active = \<lparr>line = nat n, character = 0\<rparr>\<rparr>"
  using assms by (simp add: buildSelection_inside)

lemma sizes_ts:
  assumes v: "validSelection doc sel"
  shows "\<exists>topL botEx. fullLineRange_ts sel doc = (topL, botEx)
           \<and> 0 \<le> topL \<and> topL \<le> botEx \<and> botEx \<le> lineCount doc
           \<and> (\<exists>t b. outwardsUp_ts_sel doc sel = buildSelection doc t b True
                 \<and> 0 \<le> t \<and> t \<le> b \<and> b \<le> lineCount doc \<and> botEx - topL \<le> b - t)
           \<and> (\<exists>t b. outwardsDown_ts_sel doc sel = buildSelection doc t b False
                 \<and> 0 \<le> t \<and> t \<le> b \<and> b \<le> lineCount doc \<and> botEx - topL \<le> b - t)
           \<and> (\<exists>t b. inwardsUp_ts_sel doc sel = buildSelection doc t b True
                 \<and> 0 \<le> t \<and> t \<le> b \<and> b \<le> lineCount doc \<and> b - t \<le> botEx - topL)
           \<and> (\<exists>t b. inwardsDown_ts_sel doc sel = buildSelection doc t b False
                 \<and> 0 \<le> t \<and> t \<le> b \<and> b \<le> lineCount doc \<and> b - t \<le> botEx - topL)"
proof -
  from v obtain topL botEx where f:
    "fullLineRange_ts sel doc = (topL, botEx)"
    "topL = int (line (sel_start sel))" "topL < botEx" "botEx \<le> lineCount doc"
    by (rule valid_resolved_ts)
  from f have t0: "0 \<le> topL" and tl: "topL < lineCount doc" by simp_all
  from outwardsUp_ts_shape [OF v f(1)] obtain t where
    "outwardsUp_ts_sel doc sel = buildSelection doc t botEx True" "0 \<le> t" "t \<le> topL" by blast
  with f have ou: "\<exists>t b. outwardsUp_ts_sel doc sel = buildSelection doc t b True
                 \<and> 0 \<le> t \<and> t \<le> b \<and> b \<le> lineCount doc \<and> botEx - topL \<le> b - t"
    by (intro exI [of _ t] exI [of _ botEx]) simp
  from outwardsDown_ts_shape [OF v f(1)] obtain b where
    "outwardsDown_ts_sel doc sel = buildSelection doc topL b False" "botEx \<le> b" "b \<le> lineCount doc"
    by blast
  with f t0 have od: "\<exists>t b. outwardsDown_ts_sel doc sel = buildSelection doc t b False
                 \<and> 0 \<le> t \<and> t \<le> b \<and> b \<le> lineCount doc \<and> botEx - topL \<le> b - t"
    by (intro exI [of _ topL] exI [of _ b]) simp
  from inwardsUp_ts_shape [OF v f(1)]
  have iu: "\<exists>t b. inwardsUp_ts_sel doc sel = buildSelection doc t b True
                 \<and> 0 \<le> t \<and> t \<le> b \<and> b \<le> lineCount doc \<and> b - t \<le> botEx - topL"
  proof (elim disjE exE conjE)
    fix n assume "inwardsUp_ts_sel doc sel =
      Inr \<lparr>anchor = \<lparr>line = n, character = 0\<rparr>, active = \<lparr>line = n, character = 0\<rparr>\<rparr>"
      "n < length doc"
    with f(3) show ?thesis
      by (intro exI [of _ "int n"]) (simp add: caret_as_build lineCount_def)
  next
    fix t assume "inwardsUp_ts_sel doc sel = buildSelection doc t botEx True" "topL \<le> t" "t < botEx"
    with f t0 show ?thesis
      by (intro exI [of _ t] exI [of _ botEx]) simp
  qed
  from inwardsDown_ts_shape [OF v f(1)]
  have idn: "\<exists>t b. inwardsDown_ts_sel doc sel = buildSelection doc t b False
                 \<and> 0 \<le> t \<and> t \<le> b \<and> b \<le> lineCount doc \<and> b - t \<le> botEx - topL"
  proof (elim disjE exE conjE)
    assume "inwardsDown_ts_sel doc sel =
      Inr \<lparr>anchor = \<lparr>line = nat topL, character = 0\<rparr>, active = \<lparr>line = nat topL, character = 0\<rparr>\<rparr>"
    with f t0 tl show ?thesis
      by (intro exI [of _ topL]) (simp add: caret_as_build)
  next
    fix b assume "inwardsDown_ts_sel doc sel = buildSelection doc topL b False" "topL < b" "b \<le> botEx"
    with f t0 show ?thesis
      by (intro exI [of _ topL] exI [of _ b]) simp
  qed
  from f t0 ou od iu idn show ?thesis by (intro exI [of _ topL] exI [of _ botEx]) simp
qed

section \<open>Results are defined and line-aligned\<close>

lemma build_defined:
  assumes "doc \<noteq> []" "0 \<le> b"
  shows "\<exists>out. buildSelection doc t b pin = Inr out"
proof (cases "b < lineCount doc")
  case True
  with assms show ?thesis by (simp add: buildSelection_def posLineStart_eq posEnd_inside)
next
  case False
  with assms show ?thesis by (simp add: buildSelection_def posLineStart_eq posEnd_past)
qed

lemma endOfDocument_valid: "doc \<noteq> [] \<Longrightarrow> validPosition doc (endOfDocument doc)"
  by (simp add: validPosition_def endOfDocument_def)

lemma atLineStart_valid: "atLineStart doc p \<Longrightarrow> validPosition doc p"
  by (simp add: validPosition_def atLineStart_def)

lemma aligned_pair:
  assumes "doc \<noteq> []" "atLineStart doc s" "atLineStart doc e \<or> e = endOfDocument doc"
  shows "lineAligned doc \<lparr>anchor = s, active = e\<rparr>" "lineAligned doc \<lparr>anchor = e, active = s\<rparr>"
proof -
  have eb: "atLineStart doc e" if "isBefore e s"
  proof -
    from assms(3) show ?thesis
    proof
      assume "e = endOfDocument doc"
      with that assms(2) have False
        by (auto simp: isBefore_def endOfDocument_def atLineStart_def)
      then show ?thesis ..
    qed
  qed
  have se: "s = e" if "\<not> isBefore e s" "\<not> isBefore s e"
    using that by (cases s; cases e) (auto simp: isBefore_def)
  show "lineAligned doc \<lparr>anchor = s, active = e\<rparr>"
    using assms eb se
    by (auto simp: lineAligned_def isEmpty_def sel_start_def sel_end_def)
  show "lineAligned doc \<lparr>anchor = e, active = s\<rparr>"
    using assms eb se
    by (auto simp: lineAligned_def isEmpty_def sel_start_def sel_end_def)
qed

lemma posLineStart_atLineStart:
  assumes "doc \<noteq> []" "posLineStart doc n = Inr c"
  shows "atLineStart doc c"
proof -
  from assms(1) have "0 < length doc" by simp
  then have "nat (max 0 (min n (lineCount doc - 1))) < length doc"
    unfolding lineCount_def by arith
  with assms(2) show ?thesis by (auto simp: posLineStart_eq atLineStart_def)
qed

lemma posEnd_aligned:
  assumes "doc \<noteq> []" "posEndForExclusiveLine doc b = Inr e"
  shows "atLineStart doc e \<or> e = endOfDocument doc"
proof (cases "b < lineCount doc")
  case True
  with assms(2) show ?thesis
    by (auto simp: posEndForExclusiveLine_def newPosition_def atLineStart_def lineCount_def
        split: if_splits)
next
  case False
  with assms show ?thesis by (simp add: posEnd_past)
qed

lemma build_aligned:
  assumes "doc \<noteq> []" "buildSelection doc t b pin = Inr out"
  shows "lineAligned doc out"
proof -
  from assms(2) obtain s e where
    s: "posLineStart doc t = Inr s" and e: "posEndForExclusiveLine doc b = Inr e"
    and out: "out = (if pin then \<lparr>anchor = e, active = s\<rparr> else \<lparr>anchor = s, active = e\<rparr>)"
    by (auto simp: buildSelection_def bindE_def split: sum.splits)
  from aligned_pair [OF assms(1) posLineStart_atLineStart [OF assms(1) s] posEnd_aligned [OF assms(1) e]]
  show ?thesis using out by simp
qed

lemma caret_aligned:
  assumes "doc \<noteq> []" "posLineStart doc n = Inr c"
  shows "lineAligned doc \<lparr>anchor = c, active = c\<rparr>"
  using posLineStart_atLineStart [OF assms] by (simp add: lineAligned_def)

lemma aligned_valid:
  assumes "doc \<noteq> []" "lineAligned doc out"
  shows "validSelection doc out"
proof (cases "isEmpty out")
  case True
  then have "anchor out = active out"
    by (auto simp: isEmpty_def sel_start_def sel_end_def split: if_splits)
  with True assms show ?thesis
    by (simp add: lineAligned_def validSelection_def atLineStart_valid)
next
  case False
  with assms have "validPosition doc (sel_start out)" "validPosition doc (sel_end out)"
    by (auto simp: lineAligned_def atLineStart_valid endOfDocument_valid)
  then show ?thesis
    by (auto simp: validSelection_def sel_start_def sel_end_def split: if_splits)
qed

lemma transforms_aligned:
  assumes "doc \<noteq> []"
  shows "outwardsDown_sel doc sel = Inr out \<Longrightarrow> lineAligned doc out"
    and "inwardsDown_sel doc sel = Inr out \<Longrightarrow> lineAligned doc out"
    and "outwardsUp_sel doc sel = Inr out \<Longrightarrow> lineAligned doc out"
    and "inwardsUp_sel doc sel = Inr out \<Longrightarrow> lineAligned doc out"
  using assms
  by (auto simp: outwardsDown_sel_def inwardsDown_sel_def outwardsUp_sel_def inwardsUp_sel_def
      bindE_def Let_def split: if_splits sum.splits prod.splits
      dest: build_aligned caret_aligned)

lemma transforms_ts_aligned:
  assumes "doc \<noteq> []"
  shows "outwardsDown_ts_sel doc sel = Inr out \<Longrightarrow> lineAligned doc out"
    and "inwardsDown_ts_sel doc sel = Inr out \<Longrightarrow> lineAligned doc out"
    and "outwardsUp_ts_sel doc sel = Inr out \<Longrightarrow> lineAligned doc out"
    and "inwardsUp_ts_sel doc sel = Inr out \<Longrightarrow> lineAligned doc out"
  using assms
  by (auto simp: outwardsDown_ts_sel_def inwardsDown_ts_sel_def outwardsUp_ts_sel_def
      inwardsUp_ts_sel_def bindE_def Let_def split: if_splits sum.splits prod.splits
      dest: build_aligned caret_aligned)

lemma fullLineRange_ts_nonneg:
  assumes "fullLineRange_ts sel doc = (topL, botEx)"
  shows "0 \<le> topL" "0 \<le> botEx"
  using assms
  by (auto simp: fullLineRange_ts_def Let_def lineCount_def split: if_splits)

lemma transforms_ts_defined:
  assumes "doc \<noteq> []"
  shows "\<exists>out. outwardsDown_ts_sel doc sel = Inr out"
    and "\<exists>out. inwardsDown_ts_sel doc sel = Inr out"
    and "\<exists>out. outwardsUp_ts_sel doc sel = Inr out"
    and "\<exists>out. inwardsUp_ts_sel doc sel = Inr out"
proof -
  obtain topL botEx where r: "fullLineRange_ts sel doc = (topL, botEx)"
    by (cases "fullLineRange_ts sel doc")
  note n = fullLineRange_ts_nonneg [OF r]
  show "\<exists>out. outwardsDown_ts_sel doc sel = Inr out"
    using r n assms by (simp add: outwardsDown_ts_sel_def Let_def build_defined)
  show "\<exists>out. inwardsDown_ts_sel doc sel = Inr out"
    using r n assms by (simp add: inwardsDown_ts_sel_def Let_def build_defined posLineStart_eq)
  show "\<exists>out. outwardsUp_ts_sel doc sel = Inr out"
    using r n assms by (simp add: outwardsUp_ts_sel_def Let_def build_defined)
  show "\<exists>out. inwardsUp_ts_sel doc sel = Inr out"
    using r n assms by (simp add: inwardsUp_ts_sel_def Let_def build_defined posLineStart_eq)
qed

lemma fullLineRange_defined:
  assumes "line (sel_start sel) < length doc"
  shows "\<exists>p topL botEx. hasPartialLineSelection sel doc = Inr p
           \<and> fullLineRange sel doc = Inr (topL, botEx) \<and> 0 \<le> topL \<and> 0 \<le> botEx"
proof -
  from hasPartial_defined [OF assms] obtain p where p: "hasPartialLineSelection sel doc = Inr p" ..
  then show ?thesis
    by (cases "isEmpty sel"; cases p) (auto simp: fullLineRange_def Let_def lineCount_def)
qed

lemma transforms_defined_start_inside:
  assumes "line (sel_start sel) < length doc"
  shows "\<exists>out. outwardsDown_sel doc sel = Inr out"
    and "\<exists>out. inwardsDown_sel doc sel = Inr out"
    and "\<exists>out. outwardsUp_sel doc sel = Inr out"
    and "\<exists>out. inwardsUp_sel doc sel = Inr out"
proof -
  from assms have d: "doc \<noteq> []" by auto
  from fullLineRange_defined [OF assms] obtain p topL botEx where f:
    "hasPartialLineSelection sel doc = Inr p" "fullLineRange sel doc = Inr (topL, botEx)"
    "0 \<le> topL" "0 \<le> botEx"
    by blast
  show "\<exists>out. outwardsDown_sel doc sel = Inr out"
    using f d by (simp add: outwardsDown_sel_def Let_def build_defined)
  show "\<exists>out. inwardsDown_sel doc sel = Inr out"
    using f d by (simp add: inwardsDown_sel_def Let_def build_defined posLineStart_eq)
  show "\<exists>out. outwardsUp_sel doc sel = Inr out"
    using f d by (simp add: outwardsUp_sel_def Let_def build_defined)
  show "\<exists>out. inwardsUp_sel doc sel = Inr out"
    using f d by (simp add: inwardsUp_sel_def Let_def build_defined posLineStart_eq)
qed

section \<open>The last line a selection covers\<close>

lemma actualBottomLine_caret [simp]: "actualBottomLine \<lparr>anchor = p, active = p\<rparr> = line p"
  by (simp add: actualBottomLine_def pMax_end)

lemma resolver_ts_rows:
  assumes "validSelection doc sel"
  shows "fullLineRange_ts sel doc = (int (line (sel_start sel)), int (actualBottomLine sel) + 1)"
proof -
  from assms have ls: "line (sel_start sel) < length doc" and le: "line (sel_end sel) < length doc"
    using valid_start valid_end by (auto simp: validPosition_def)
  note se = start_le_end [of sel]
  show ?thesis
  proof (cases "isEmpty sel")
    case True
    then have "sel_end sel = sel_start sel" "active sel = sel_start sel"
      by (simp_all add: isEmpty_def isEmpty_active)
    with True ls show ?thesis
      by (simp add: fullLineRange_ts_def lineCount_def Let_def actualBottomLine_def pMax_end)
  next
    case False
    show ?thesis
    proof (cases "character (sel_end sel) = 0")
      case True
      with False have "line (sel_start sel) < line (sel_end sel)" by (rule nonempty_char0_lines)
      with False True le show ?thesis
        by (simp add: fullLineRange_ts_def pMin_start pMax_end lineCount_def Let_def
            actualBottomLine_def)
    next
      case c: False
      with False le se show ?thesis
        by (simp add: fullLineRange_ts_def pMin_start pMax_end lineCount_def Let_def
            actualBottomLine_def)
    qed
  qed
qed

lemma resolver_rows:
  assumes "validSelection doc sel"
    and "isEmpty sel \<or> hasPartialLineSelection sel doc = Inr True \<or> character (sel_end sel) = 0"
  shows "fullLineRange sel doc = Inr (int (line (sel_start sel)), int (actualBottomLine sel) + 1)"
proof -
  from assms have ls: "line (sel_start sel) < length doc" and le: "line (sel_end sel) < length doc"
    using valid_start valid_end by (auto simp: validPosition_def)
  from hasPartial_defined [OF ls] obtain p where p: "hasPartialLineSelection sel doc = Inr p" ..
  show ?thesis
  proof (cases "isEmpty sel")
    case True
    then have "sel_end sel = sel_start sel" "active sel = sel_start sel"
      by (simp_all add: isEmpty_def isEmpty_active)
    with True ls show ?thesis
      by (simp add: fullLineRange_def lineCount_def Let_def actualBottomLine_def pMax_end)
  next
    case False
    show ?thesis
    proof (cases "character (sel_end sel) = 0")
      case True
      with False have "line (sel_start sel) < line (sel_end sel)" by (rule nonempty_char0_lines)
      with False True p show ?thesis
        by (cases p) (simp_all add: fullLineRange_def pMin_start pMax_end Let_def actualBottomLine_def)
    next
      case c: False
      with False assms(2) p have "p" by simp
      with False c p show ?thesis
        by (simp add: fullLineRange_def pMin_start pMax_end Let_def actualBottomLine_def)
    qed
  qed
qed

lemma rows_to_last_line:
  assumes "validSelection doc sel" "int (actualBottomLine sel) + 1 = lineCount doc"
    "doc ! (length doc - 1) = []"
  shows "isEmpty sel"
proof (rule ccontr)
  assume ne: "\<not> isEmpty sel"
  from assms(1) have v: "validPosition doc (sel_end sel)" by (rule valid_end)
  show False
  proof (cases "character (sel_end sel) = 0")
    case True
    with ne have "line (sel_start sel) < line (sel_end sel)" by (rule nonempty_char0_lines)
    with ne True assms(2) v show False
      by (simp add: actualBottomLine_def pMax_end lineCount_def validPosition_def)
  next
    case False
    with ne assms(2) have "line (sel_end sel) = length doc - 1"
      by (simp add: actualBottomLine_def pMax_end lineCount_def)
    with v assms(3) False show False by (simp add: validPosition_def)
  qed
qed

lemma build_bottom_row:
  assumes "0 \<le> t" "t < b" "b \<le> lineCount doc"
    and "b = lineCount doc \<and> doc ! (length doc - 1) = [] \<longrightarrow> t = lineCount doc - 1"
  shows "\<exists>out. buildSelection doc t b pin = Inr out \<and> int (actualBottomLine out) = b - 1"
proof -
  from assms have tl: "t \<le> b" "t < lineCount doc" by simp_all
  from build_ends [OF assms(1) tl, of pin] obtain out where
    o: "buildSelection doc t b pin = Inr out"
      "sel_start out = \<lparr>line = nat t, character = 0\<rparr>"
      "sel_end out = (if b < lineCount doc then \<lparr>line = nat b, character = 0\<rparr> else endOfDocument doc)"
    by blast
  have "int (actualBottomLine out) = b - 1"
  proof (cases "b < lineCount doc")
    case True
    with o assms have "\<not> isEmpty out" by (auto simp: isEmpty_def)
    with True o assms show ?thesis by (simp add: actualBottomLine_def pMax_end)
  next
    case False
    with assms have b: "b = lineCount doc" by simp
    from assms(1-3) have pos: "int (length doc - Suc 0) = int (length doc) - 1"
      unfolding lineCount_def by arith
    show ?thesis
    proof (cases "doc ! (length doc - 1) = []")
      case True
      with b assms(4) have "t = lineCount doc - 1" by simp
      with o b True assms(1) have "isEmpty out"
        by (simp add: isEmpty_def endOfDocument_def lineCount_def nat_diff_distrib)
      with o b pos show ?thesis
        by (simp add: actualBottomLine_def pMax_end endOfDocument_def lineCount_def)
    next
      case False
      with o b pos show ?thesis
        by (simp add: actualBottomLine_def pMax_end endOfDocument_def lineCount_def)
    qed
  qed
  with o(1) show ?thesis by blast
qed

lemma bottom_row_ts:
  assumes v: "validSelection doc sel"
  shows "\<exists>out. outwardsUp_ts_sel doc sel = Inr out \<and> actualBottomLine out = actualBottomLine sel"
    and "\<exists>out. inwardsUp_ts_sel doc sel = Inr out \<and> actualBottomLine out = actualBottomLine sel"
proof -
  define topL where "topL = int (line (sel_start sel))"
  define botEx where "botEx = int (actualBottomLine sel) + 1"
  have r: "fullLineRange_ts sel doc = (topL, botEx)"
    using resolver_ts_rows [OF v] by (simp add: topL_def botEx_def)
  from v obtain t' b' where f:
    "fullLineRange_ts sel doc = (t', b')" "t' < b'" "b' \<le> lineCount doc"
    "isEmpty sel \<longrightarrow> b' = t' + 1 \<and> int (line (active sel)) = t'"
    by (rule valid_resolved_ts)
  with r have f': "topL < botEx" "botEx \<le> lineCount doc"
    "isEmpty sel \<longrightarrow> botEx = topL + 1 \<and> int (line (active sel)) = topL"
    by simp_all
  have t0: "0 \<le> topL" by (simp add: topL_def)
  have last: "isEmpty sel" if "botEx = lineCount doc" "doc ! (length doc - 1) = []"
    using rows_to_last_line [OF v] that by (simp add: botEx_def)
  show "\<exists>out. outwardsUp_ts_sel doc sel = Inr out \<and> actualBottomLine out = actualBottomLine sel"
  proof (cases "isEmpty sel")
    case True
    with f' have "outwardsUp_ts_sel doc sel = buildSelection doc topL botEx True"
      by (simp add: outwardsUp_ts_sel_def Let_def)
    moreover from True f' t0 have "\<exists>out. buildSelection doc topL botEx True = Inr out
        \<and> int (actualBottomLine out) = botEx - 1"
      by (intro build_bottom_row) simp_all
    ultimately show ?thesis by (auto simp: botEx_def)
  next
    case False
    define t where "t = (if topL > 0 then topL - 1 else topL)"
    from False r have "outwardsUp_ts_sel doc sel = buildSelection doc t botEx True"
      by (simp add: outwardsUp_ts_sel_def t_def)
    moreover from False f' t0 last have "\<exists>out. buildSelection doc t botEx True = Inr out
        \<and> int (actualBottomLine out) = botEx - 1"
      by (intro build_bottom_row) (auto simp: t_def)
    ultimately show ?thesis by (auto simp: botEx_def)
  qed
  show "\<exists>out. inwardsUp_ts_sel doc sel = Inr out \<and> actualBottomLine out = actualBottomLine sel"
  proof (cases "botEx - topL \<le> 1")
    case True
    from f' have "max 0 (min (clamp (botEx - 1) 0 (lineCount doc - 1)) (lineCount doc - 1)) = botEx - 1"
      using t0 by (auto simp: clamp_def)
    with True r show ?thesis
      by (simp add: inwardsUp_ts_sel_def Let_def posLineStart_eq botEx_def)
  next
    case False
    with f' have ne: "\<not> isEmpty sel" by auto
    from False r have "inwardsUp_ts_sel doc sel = buildSelection doc (topL + 1) botEx True"
      by (simp add: inwardsUp_ts_sel_def Let_def)
    moreover from False f' t0 last ne have "\<exists>out. buildSelection doc (topL + 1) botEx True = Inr out
        \<and> int (actualBottomLine out) = botEx - 1"
      by (intro build_bottom_row) auto
    ultimately show ?thesis by (auto simp: botEx_def)
  qed
qed

lemma bottom_row_part:
  assumes v: "validSelection doc sel"
    and c: "isEmpty sel \<or> hasPartialLineSelection sel doc = Inr True \<or> character (sel_end sel) = 0"
  shows "\<exists>out. outwardsUp_sel doc sel = Inr out \<and> actualBottomLine out = actualBottomLine sel"
    and "\<exists>out. inwardsUp_sel doc sel = Inr out \<and> actualBottomLine out = actualBottomLine sel"
proof -
  define topL where "topL = int (line (sel_start sel))"
  define botEx where "botEx = int (actualBottomLine sel) + 1"
  have r: "fullLineRange sel doc = Inr (topL, botEx)"
    using resolver_rows [OF v c] by (simp add: topL_def botEx_def)
  from v obtain t' b' p where f:
    "hasPartialLineSelection sel doc = Inr p"
    "fullLineRange sel doc = Inr (t', b')" "t' \<le> b'" "b' \<le> lineCount doc"
    "isEmpty sel \<longrightarrow> \<not> p \<and> b' = t' + 1 \<and> int (line (active sel)) = t'"
    by (rule valid_resolved)
  with r have f': "topL \<le> botEx" "botEx \<le> lineCount doc"
    "isEmpty sel \<longrightarrow> \<not> p \<and> botEx = topL + 1 \<and> int (line (active sel)) = topL"
    by simp_all
  have t0: "0 \<le> topL" by (simp add: topL_def)
  have lt: "topL < botEx"
    using start_le_end [of sel] nonempty_char0_lines [of sel]
    by (cases "isEmpty sel"; cases "character (sel_end sel) = 0")
      (auto simp: topL_def botEx_def actualBottomLine_def pMax_end isEmpty_def)
  have last: "isEmpty sel" if "botEx = lineCount doc" "doc ! (length doc - 1) = []"
    using rows_to_last_line [OF v] that by (simp add: botEx_def)
  show "\<exists>out. outwardsUp_sel doc sel = Inr out \<and> actualBottomLine out = actualBottomLine sel"
  proof (cases "isEmpty sel")
    case True
    with f' have "outwardsUp_sel doc sel = buildSelection doc topL botEx True"
      by (simp add: outwardsUp_sel_def Let_def)
    moreover from True f' t0 have "\<exists>out. buildSelection doc topL botEx True = Inr out
        \<and> int (actualBottomLine out) = botEx - 1"
      by (intro build_bottom_row) simp_all
    ultimately show ?thesis by (auto simp: botEx_def)
  next
    case False
    define t where "t = (if p then topL else if topL > 0 then topL - 1 else topL)"
    from False r f(1) have "outwardsUp_sel doc sel = buildSelection doc t botEx True"
      by (simp add: outwardsUp_sel_def t_def)
    moreover from False f' lt t0 last have "\<exists>out. buildSelection doc t botEx True = Inr out
        \<and> int (actualBottomLine out) = botEx - 1"
      by (intro build_bottom_row) (auto simp: t_def)
    ultimately show ?thesis by (auto simp: botEx_def)
  qed
  show "\<exists>out. inwardsUp_sel doc sel = Inr out \<and> actualBottomLine out = actualBottomLine sel"
  proof (cases "\<not> p \<and> botEx - topL \<le> 1")
    case True
    from f' lt have "max 0 (min (clamp (botEx - 1) 0 (lineCount doc - 1)) (lineCount doc - 1)) = botEx - 1"
      using t0 by (auto simp: clamp_def)
    with True r f(1) show ?thesis
      by (simp add: inwardsUp_sel_def Let_def posLineStart_eq botEx_def)
  next
    case False
    define t where "t = (if p then topL else topL + 1)"
    from False f' have ne: "\<not> isEmpty sel" by auto
    from False r f(1) have "inwardsUp_sel doc sel = buildSelection doc t botEx True"
      by (cases p) (simp_all add: inwardsUp_sel_def Let_def t_def)
    moreover from False f' lt t0 last ne have "\<exists>out. buildSelection doc t botEx True = Inr out
        \<and> int (actualBottomLine out) = botEx - 1"
      by (intro build_bottom_row) (auto simp: t_def)
    ultimately show ?thesis by (auto simp: botEx_def)
  qed
qed

section \<open>The selection a partial selection snaps to\<close>

lemma partial_snap_only:
  assumes "hasPartialLineSelection sel doc = Inr True"
  shows "\<not> isEmpty sel \<and>
         (\<exists>topL botEx. fullLineRange sel doc = Inr (topL, botEx) \<and>
           topL = int (line (sel_start sel)) \<and>
           botEx = (if character (sel_end sel) = 0 then int (line (sel_end sel))
                    else int (line (sel_end sel)) + 1) \<and>
           outwardsUp_sel doc sel = buildSelection doc topL botEx True \<and>
           inwardsUp_sel doc sel = buildSelection doc topL botEx True \<and>
           outwardsDown_sel doc sel = buildSelection doc topL botEx False \<and>
           inwardsDown_sel doc sel = buildSelection doc topL botEx False)"
proof -
  from assms have ne: "\<not> isEmpty sel" by (rule hasPartial_True_nonempty)
  define topL where "topL = int (line (sel_start sel))"
  define botEx where "botEx = (if character (sel_end sel) = 0 then int (line (sel_end sel))
                    else int (line (sel_end sel)) + 1)"
  have r: "fullLineRange sel doc = Inr (topL, botEx)"
    using assms ne by (simp add: fullLineRange_def Let_def pMin_start pMax_end topL_def botEx_def)
  have "outwardsUp_sel doc sel = buildSelection doc topL botEx True"
    "inwardsUp_sel doc sel = buildSelection doc topL botEx True"
    "outwardsDown_sel doc sel = buildSelection doc topL botEx False"
    "inwardsDown_sel doc sel = buildSelection doc topL botEx False"
    using assms ne r
    by (simp_all add: outwardsUp_sel_def inwardsUp_sel_def outwardsDown_sel_def inwardsDown_sel_def)
  with ne r topL_def botEx_def show ?thesis by blast
qed

lemma partial_snap_selection:
  assumes v: "validSelection doc sel" and p: "hasPartialLineSelection sel doc = Inr True"
  defines "s \<equiv> \<lparr>line = line (sel_start sel), character = 0\<rparr>"
    and "e \<equiv> (if Suc (actualBottomLine sel) < length doc
               then \<lparr>line = Suc (actualBottomLine sel), character = 0\<rparr>
               else endOfDocument doc)"
  shows "outwardsUp_sel doc sel = Inr \<lparr>anchor = e, active = s\<rparr>
       \<and> inwardsUp_sel doc sel = Inr \<lparr>anchor = e, active = s\<rparr>
       \<and> outwardsDown_sel doc sel = Inr \<lparr>anchor = s, active = e\<rparr>
       \<and> inwardsDown_sel doc sel = Inr \<lparr>anchor = s, active = e\<rparr>"
proof -
  define topL where "topL = int (line (sel_start sel))"
  define botEx where "botEx = int (actualBottomLine sel) + 1"
  have r: "fullLineRange sel doc = Inr (topL, botEx)"
    using resolver_rows [OF v] p by (simp add: topL_def botEx_def)
  from partial_snap_only [OF p] r have t:
    "outwardsUp_sel doc sel = buildSelection doc topL botEx True"
    "inwardsUp_sel doc sel = buildSelection doc topL botEx True"
    "outwardsDown_sel doc sel = buildSelection doc topL botEx False"
    "inwardsDown_sel doc sel = buildSelection doc topL botEx False"
    by auto
  from v have tl: "0 \<le> topL" "topL < lineCount doc"
    using valid_start by (auto simp: topL_def validPosition_def lineCount_def)
  have b0: "0 \<le> botEx" by (simp add: botEx_def)
  have "buildSelection doc topL botEx pin =
      Inr (if pin then \<lparr>anchor = e, active = s\<rparr> else \<lparr>anchor = s, active = e\<rparr>)" for pin
  proof (cases "botEx < lineCount doc")
    case True
    then have "Suc (actualBottomLine sel) < length doc" by (simp add: botEx_def lineCount_def)
    moreover have "nat botEx = Suc (actualBottomLine sel)" by (simp add: botEx_def)
    ultimately show ?thesis
      using buildSelection_inside [OF tl b0 True, of pin]
      by (simp add: s_def e_def topL_def)
  next
    case False
    then have "\<not> Suc (actualBottomLine sel) < length doc" by (simp add: botEx_def lineCount_def)
    with False show ?thesis
      using buildSelection_past [OF tl, of botEx pin]
      by (simp add: s_def e_def topL_def)
  qed
  with t show ?thesis by simp
qed

section \<open>The size of the range resolved from the result\<close>

lemma rangeSize_ts_valid:
  "validSelection doc sel \<Longrightarrow>
   rangeSize_ts doc sel = int (actualBottomLine sel) + 1 - int (line (sel_start sel))"
  by (simp add: rangeSize_ts_def resolver_ts_rows)

lemma build_bottom_row_empty_last:
  assumes "0 \<le> t" "t < lineCount doc - 1" "doc ! (length doc - 1) = []"
  shows "\<exists>out. buildSelection doc t (lineCount doc) pin = Inr out
           \<and> int (actualBottomLine out) = lineCount doc - 2"
proof -
  from assms have tl: "t \<le> lineCount doc" "t < lineCount doc" by simp_all
  from build_ends [OF assms(1) tl, of pin] obtain out where
    o: "buildSelection doc t (lineCount doc) pin = Inr out"
      "sel_start out = \<lparr>line = nat t, character = 0\<rparr>"
      "sel_end out = endOfDocument doc"
    by auto
  from assms(1,2) have n: "nat t \<noteq> length doc - 1" "int (length doc - 1 - 1) = int (length doc) - 2"
    unfolding lineCount_def by arith+
  with o have "\<not> isEmpty out" by (simp add: isEmpty_def endOfDocument_def)
  with o assms(3) n have "int (actualBottomLine out) = lineCount doc - 2"
    by (simp add: actualBottomLine_def pMax_end endOfDocument_def lineCount_def)
  with o(1) show ?thesis by blast
qed

lemma bottom_row_down_ts:
  assumes v: "validSelection doc sel"
  shows "\<exists>out. outwardsDown_ts_sel doc sel = Inr out \<and> actualBottomLine sel \<le> actualBottomLine out"
    and "\<exists>out. inwardsDown_ts_sel doc sel = Inr out \<and> actualBottomLine out \<le> actualBottomLine sel"
proof -
  define topL where "topL = int (line (sel_start sel))"
  define botEx where "botEx = int (actualBottomLine sel) + 1"
  have r: "fullLineRange_ts sel doc = (topL, botEx)"
    using resolver_ts_rows [OF v] by (simp add: topL_def botEx_def)
  from v obtain t' b' where f:
    "fullLineRange_ts sel doc = (t', b')" "t' < b'" "b' \<le> lineCount doc"
    "isEmpty sel \<longrightarrow> b' = t' + 1 \<and> int (line (active sel)) = t'"
    by (rule valid_resolved_ts)
  with r have f': "topL < botEx" "botEx \<le> lineCount doc"
    "isEmpty sel \<longrightarrow> botEx = topL + 1 \<and> int (line (active sel)) = topL"
    by simp_all
  have t0: "0 \<le> topL" by (simp add: topL_def)
  have last: "isEmpty sel" if "botEx = lineCount doc" "doc ! (length doc - 1) = []"
    using rows_to_last_line [OF v] that by (simp add: botEx_def)
  show "\<exists>out. outwardsDown_ts_sel doc sel = Inr out \<and> actualBottomLine sel \<le> actualBottomLine out"
  proof (cases "isEmpty sel")
    case True
    with f' have "outwardsDown_ts_sel doc sel = buildSelection doc topL botEx False"
      by (simp add: outwardsDown_ts_sel_def Let_def)
    moreover from True f' t0 have "\<exists>out. buildSelection doc topL botEx False = Inr out
        \<and> int (actualBottomLine out) = botEx - 1"
      by (intro build_bottom_row) simp_all
    ultimately show ?thesis by (auto simp: botEx_def)
  next
    case False
    define b where "b = (if botEx < lineCount doc then botEx + 1 else botEx)"
    from False r have o: "outwardsDown_ts_sel doc sel = buildSelection doc topL b False"
      by (simp add: outwardsDown_ts_sel_def b_def)
    show ?thesis
    proof (cases "b = lineCount doc \<and> doc ! (length doc - 1) = [] \<and> topL < lineCount doc - 1")
      case True
      with False last have "b = botEx + 1" by (cases "botEx < lineCount doc") (auto simp: b_def)
      moreover from True t0 have "\<exists>out. buildSelection doc topL b False = Inr out
          \<and> int (actualBottomLine out) = lineCount doc - 2"
        using build_bottom_row_empty_last [of topL doc False] by simp
      ultimately show ?thesis using o True by (auto simp: botEx_def)
    next
      case c: False
      with f' t0 have "\<exists>out. buildSelection doc topL b False = Inr out
          \<and> int (actualBottomLine out) = b - 1"
        by (intro build_bottom_row) (auto simp: b_def)
      with o show ?thesis by (auto simp: botEx_def b_def split: if_splits)
    qed
  qed
  show "\<exists>out. inwardsDown_ts_sel doc sel = Inr out \<and> actualBottomLine out \<le> actualBottomLine sel"
  proof (cases "botEx - topL \<le> 1")
    case True
    with r f' t0 show ?thesis
      by (simp add: inwardsDown_ts_sel_def Let_def posLineStart_inside botEx_def topL_def)
  next
    case False
    from False r have "inwardsDown_ts_sel doc sel = buildSelection doc topL (botEx - 1) False"
      by (simp add: inwardsDown_ts_sel_def Let_def)
    moreover from False f' t0 have "\<exists>out. buildSelection doc topL (botEx - 1) False = Inr out
        \<and> int (actualBottomLine out) = botEx - 1 - 1"
      by (intro build_bottom_row) auto
    ultimately show ?thesis by (auto simp: botEx_def)
  qed
qed

lemma start_line_up_ts:
  assumes v: "validSelection doc sel"
  shows "\<exists>out. outwardsUp_ts_sel doc sel = Inr out \<and> line (sel_start out) \<le> line (sel_start sel)"
    and "\<exists>out. inwardsUp_ts_sel doc sel = Inr out \<and> line (sel_start sel) \<le> line (sel_start out)"
proof -
  from v obtain topL botEx where f:
    "fullLineRange_ts sel doc = (topL, botEx)"
    "topL = int (line (sel_start sel))" "topL < botEx" "botEx \<le> lineCount doc"
    by (rule valid_resolved_ts)
  then have t0: "0 \<le> topL" by simp
  from outwardsUp_ts_shape [OF v f(1)] obtain t where
    t: "outwardsUp_ts_sel doc sel = buildSelection doc t botEx True" "0 \<le> t" "t \<le> topL" by blast
  with f have "t \<le> botEx" "t < lineCount doc" by simp_all
  from build_ends [OF t(2) this, of True] t f(2)
  show "\<exists>out. outwardsUp_ts_sel doc sel = Inr out \<and> line (sel_start out) \<le> line (sel_start sel)"
    by auto
  from inwardsUp_ts_shape [OF v f(1)]
  show "\<exists>out. inwardsUp_ts_sel doc sel = Inr out \<and> line (sel_start sel) \<le> line (sel_start out)"
  proof (elim disjE exE conjE)
    fix n assume a: "inwardsUp_ts_sel doc sel =
      Inr \<lparr>anchor = \<lparr>line = n, character = 0\<rparr>, active = \<lparr>line = n, character = 0\<rparr>\<rparr>"
    from bottom_row_ts(2) [OF v] a have "n = actualBottomLine sel" by auto
    moreover from resolver_ts_rows [OF v] f have "line (sel_start sel) \<le> actualBottomLine sel"
      by simp
    ultimately show ?thesis using a by simp
  next
    fix t assume a: "inwardsUp_ts_sel doc sel = buildSelection doc t botEx True" "topL \<le> t" "t < botEx"
    with f t0 have "0 \<le> t" "t \<le> botEx" "t < lineCount doc" by simp_all
    from build_ends [OF this, of True] a f(2) show ?thesis by auto
  qed
qed

lemma result_valid_ts:
  assumes "doc \<noteq> []"
  shows "outwardsDown_ts_sel doc sel = Inr out \<Longrightarrow> validSelection doc out"
    and "inwardsDown_ts_sel doc sel = Inr out \<Longrightarrow> validSelection doc out"
    and "outwardsUp_ts_sel doc sel = Inr out \<Longrightarrow> validSelection doc out"
    and "inwardsUp_ts_sel doc sel = Inr out \<Longrightarrow> validSelection doc out"
  using transforms_ts_aligned [OF assms] aligned_valid [OF assms] by blast+

lemma monotonic_ts:
  assumes v: "validSelection doc sel"
  shows "(\<exists>out. outwardsUp_ts_sel doc sel = Inr out \<and> validSelection doc out
            \<and> rangeSize_ts doc sel \<le> rangeSize_ts doc out)
       \<and> (\<exists>out. outwardsDown_ts_sel doc sel = Inr out \<and> validSelection doc out
            \<and> rangeSize_ts doc sel \<le> rangeSize_ts doc out)
       \<and> (\<exists>out. inwardsUp_ts_sel doc sel = Inr out \<and> validSelection doc out
            \<and> rangeSize_ts doc out \<le> rangeSize_ts doc sel)
       \<and> (\<exists>out. inwardsDown_ts_sel doc sel = Inr out \<and> validSelection doc out
            \<and> rangeSize_ts doc out \<le> rangeSize_ts doc sel)"
proof -
  from v have d: "doc \<noteq> []" by (auto simp: validSelection_def validPosition_def)
  note rv = result_valid_ts [OF d, of sel]
  have 1: "\<exists>out. outwardsUp_ts_sel doc sel = Inr out \<and> validSelection doc out
            \<and> rangeSize_ts doc sel \<le> rangeSize_ts doc out"
    using bottom_row_ts(1) [OF v] start_line_up_ts(1) [OF v] rv(3)
    by (auto simp: rangeSize_ts_valid v)
  have 2: "\<exists>out. outwardsDown_ts_sel doc sel = Inr out \<and> validSelection doc out
            \<and> rangeSize_ts doc sel \<le> rangeSize_ts doc out"
    using bottom_row_down_ts(1) [OF v] pin_down_ts(1) [OF v] rv(1)
    by (auto simp: rangeSize_ts_valid v)
  have 3: "\<exists>out. inwardsUp_ts_sel doc sel = Inr out \<and> validSelection doc out
            \<and> rangeSize_ts doc out \<le> rangeSize_ts doc sel"
    using bottom_row_ts(2) [OF v] start_line_up_ts(2) [OF v] rv(4)
    by (auto simp: rangeSize_ts_valid v)
  have 4: "\<exists>out. inwardsDown_ts_sel doc sel = Inr out \<and> validSelection doc out
            \<and> rangeSize_ts doc out \<le> rangeSize_ts doc sel"
    using bottom_row_down_ts(2) [OF v] pin_down_ts(2) [OF v] rv(2)
    by (auto simp: rangeSize_ts_valid v)
  from 1 2 3 4 show ?thesis by blast
qed

section \<open>Evaluation at concrete inputs\<close>

lemmas eval_defs =
  hasPartialLineSelection_def fullLineRange_def fullLineRange_ts_def
  outwardsDown_sel_def inwardsDown_sel_def outwardsUp_sel_def inwardsUp_sel_def
  outwardsDown_ts_sel_def inwardsDown_ts_sel_def outwardsUp_ts_sel_def inwardsUp_ts_sel_def
  buildSelection_def posLineStart_def posEndForExclusiveLine_def newPosition_def
  lineAt_def lineCount_def range_end_def clamp_def
  isEmpty_def sel_start_def sel_end_def isBefore_def pMin_def pMax_def
  validSelection_def validPosition_def endOfDocument_def Let_def

lemma valid_in_empty_line:
  assumes "validSelection [''''] sel"
  shows "sel = \<lparr>anchor = \<lparr>line = 0, character = 0\<rparr>, active = \<lparr>line = 0, character = 0\<rparr>\<rparr>"
  using assms by (cases sel; cases "anchor sel"; cases "active sel")
    (auto simp: validSelection_def validPosition_def)

lemma caret_in_empty_line:
  "f \<in> set [outwardsUp_sel, inwardsUp_sel, outwardsDown_sel, inwardsDown_sel,
             outwardsUp_ts_sel, inwardsUp_ts_sel, outwardsDown_ts_sel, inwardsDown_ts_sel] \<Longrightarrow>
   f [''''] \<lparr>anchor = \<lparr>line = 0, character = 0\<rparr>, active = \<lparr>line = 0, character = 0\<rparr>\<rparr>
     = Inr \<lparr>anchor = \<lparr>line = 0, character = 0\<rparr>, active = \<lparr>line = 0, character = 0\<rparr>\<rparr>"
  by (auto simp: eval_defs)

lemma mapE_length: "mapE f xs = Inr ys \<Longrightarrow> length ys = length xs"
  by (induction xs arbitrary: ys) (auto simp: bindE_def split: sum.splits)

lemma command_keeps_count:
  assumes "command f ed = Inr ed'"
  shows "length (selections ed') = length (selections ed) \<and> document ed' = document ed"
  using assms by (auto simp: command_def bindE_def split: sum.splits dest: mapE_length)

section \<open>Snap without step on a partial selection\<close>

text \<open>
  C1. The transforms of src/unnamed/part_001 do what the claim says, as lemma
  \<open>partial_snap_selection\<close> above states for every partial selection inside the
  document. The transforms of src/src/extension.ts do not. In a document of four lines,
  take the selection of columns 3 to 7 of line 1: the partial-selection test classifies
  it as partial, and both resolvers snap it to the range \<open>(1, 2)\<close>. In the same
  invocation \<open>outwardsDown\<close> of src/src/extension.ts also adds line 2 and \<open>outwardsUp\<close>
  also adds line 0, and both inward transforms also take the one line away and leave a
  caret; the transforms of src/unnamed/part_001 return the selection of line 1 alone,
  from column 0 of line 1 to column 0 of line 2, with their pin side.
\<close>

theorem partial_selection_snap_and_step:
  "validSelection [''01234567'', ''01234567'', ''01234567'', ''01234567''] \<lparr>anchor = \<lparr>line = 1, character = 3\<rparr>, active = \<lparr>line = 1, character = 7\<rparr>\<rparr>
   \<and> hasPartialLineSelection \<lparr>anchor = \<lparr>line = 1, character = 3\<rparr>, active = \<lparr>line = 1, character = 7\<rparr>\<rparr> [''01234567'', ''01234567'', ''01234567'', ''01234567'']
       = Inr True
   \<and> fullLineRange \<lparr>anchor = \<lparr>line = 1, character = 3\<rparr>, active = \<lparr>line = 1, character = 7\<rparr>\<rparr> [''01234567'', ''01234567'', ''01234567'', ''01234567''] = Inr (1, 2)
   \<and> fullLineRange_ts \<lparr>anchor = \<lparr>line = 1, character = 3\<rparr>, active = \<lparr>line = 1, character = 7\<rparr>\<rparr> [''01234567'', ''01234567'', ''01234567'', ''01234567''] = (1, 2)
   \<and> outwardsDown_ts_sel [''01234567'', ''01234567'', ''01234567'', ''01234567''] \<lparr>anchor = \<lparr>line = 1, character = 3\<rparr>, active = \<lparr>line = 1, character = 7\<rparr>\<rparr>
       = Inr \<lparr>anchor = \<lparr>line = 1, character = 0\<rparr>, active = \<lparr>line = 3, character = 0\<rparr>\<rparr>
   \<and> outwardsUp_ts_sel [''01234567'', ''01234567'', ''01234567'', ''01234567''] \<lparr>anchor = \<lparr>line = 1, character = 3\<rparr>, active = \<lparr>line = 1, character = 7\<rparr>\<rparr>
       = Inr \<lparr>anchor = \<lparr>line = 2, character = 0\<rparr>, active = \<lparr>line = 0, character = 0\<rparr>\<rparr>
   \<and> inwardsDown_ts_sel [''01234567'', ''01234567'', ''01234567'', ''01234567''] \<lparr>anchor = \<lparr>line = 1, character = 3\<rparr>, active = \<lparr>line = 1, character = 7\<rparr>\<rparr>
       = Inr \<lparr>anchor = \<lparr>line = 1, character = 0\<rparr>, active = \<lparr>line = 1, character = 0\<rparr>\<rparr>
   \<and> inwardsUp_ts_sel [''01234567'', ''01234567'', ''01234567'', ''01234567''] \<lparr>anchor = \<lparr>line = 1, character = 3\<rparr>, active = \<lparr>line = 1, character = 7\<rparr>\<rparr>
       = Inr \<lparr>anchor = \<lparr>line = 1, character = 0\<rparr>, active = \<lparr>line = 1, character = 0\<rparr>\<rparr>
   \<and> outwardsDown_sel [''01234567'', ''01234567'', ''01234567'', ''01234567''] \<lparr>anchor = \<lparr>line = 1, character = 3\<rparr>, active = \<lparr>line = 1, character = 7\<rparr>\<rparr>
       = Inr \<lparr>anchor = \<lparr>line = 1, character = 0\<rparr>, active = \<lparr>line = 2, character = 0\<rparr>\<rparr>
   \<and> inwardsDown_sel [''01234567'', ''01234567'', ''01234567'', ''01234567''] \<lparr>anchor = \<lparr>line = 1, character = 3\<rparr>, active = \<lparr>line = 1, character = 7\<rparr>\<rparr>
       = Inr \<lparr>anchor = \<lparr>line = 1, character = 0\<rparr>, active = \<lparr>line = 2, character = 0\<rparr>\<rparr>
   \<and> outwardsUp_sel [''01234567'', ''01234567'', ''01234567'', ''01234567''] \<lparr>anchor = \<lparr>line = 1, character = 3\<rparr>, active = \<lparr>line = 1, character = 7\<rparr>\<rparr>
       = Inr \<lparr>anchor = \<lparr>line = 2, character = 0\<rparr>, active = \<lparr>line = 1, character = 0\<rparr>\<rparr>
   \<and> inwardsUp_sel [''01234567'', ''01234567'', ''01234567'', ''01234567''] \<lparr>anchor = \<lparr>line = 1, character = 3\<rparr>, active = \<lparr>line = 1, character = 7\<rparr>\<rparr>
       = Inr \<lparr>anchor = \<lparr>line = 2, character = 0\<rparr>, active = \<lparr>line = 1, character = 0\<rparr>\<rparr>"
  by (simp add: eval_defs)

section \<open>The resolved range is not always non-empty\<close>

text \<open>
  In the variant of src/src/extension.ts the resolver ends with the guard
  \<open>if (bottomExclusive <= top) return [top, min(top + 1, lineCount)]\<close>, and its range
  covers at least one line whenever the selection starts on a line of the document.
\<close>

lemma fullLineRange_ts_nonempty_range:
  assumes "line (sel_start sel) < length doc"
  shows "fst (fullLineRange_ts sel doc) < snd (fullLineRange_ts sel doc)"
proof (cases "isEmpty sel")
  case True
  with assms show ?thesis 
    by (simp add: fullLineRange_ts_def Let_def isEmpty_active lineCount_def)
next
  case False
  with assms show ?thesis
    by (simp add: fullLineRange_ts_def Let_def pMin_start lineCount_def)
qed

text \<open>
  C2. The resolver of src/unnamed/part_001 has no such guard. For the selection of the
  whole text of the only line of the document \<open>[''ab'']\<close>, from column 0 to column 2,
  the partial-selection test answers false and the resolver returns the range
  \<open>(0, 0)\<close>, which covers no line, where the guarded resolver returns \<open>(0, 1)\<close>.
  On this selection \<open>outwardsUp\<close> then builds the selection of the range \<open>(0, 0)\<close>,
  which is a caret: the selection is lost instead of kept.
\<close>

theorem whole_text_selection_empty_range:
  "validSelection [''ab''] \<lparr>anchor = \<lparr>line = 0, character = 0\<rparr>, active = \<lparr>line = 0, character = 2\<rparr>\<rparr>
   \<and> fullLineRange \<lparr>anchor = \<lparr>line = 0, character = 0\<rparr>, active = \<lparr>line = 0, character = 2\<rparr>\<rparr> [''ab'']
       = Inr (0, 0)
   \<and> fullLineRange_ts \<lparr>anchor = \<lparr>line = 0, character = 0\<rparr>, active = \<lparr>line = 0, character = 2\<rparr>\<rparr> [''ab'']
       = (0, 1)
   \<and> outwardsUp_sel [''ab''] \<lparr>anchor = \<lparr>line = 0, character = 0\<rparr>, active = \<lparr>line = 0, character = 2\<rparr>\<rparr>
       = Inr \<lparr>anchor = \<lparr>line = 0, character = 0\<rparr>, active = \<lparr>line = 0, character = 0\<rparr>\<rparr>"
  by (simp add: eval_defs)

section \<open>A selection that reaches the end of the document\<close>

text \<open>
  C5. In the document \<open>[''ab'', ''cd'']\<close> the selection from column 0 of line 0 to the
  end of the document (line 1, column 2) is not empty, spans two lines, starts at
  column 0 and ends at the end-of-document position, and the partial-selection test
  answers true for it. Every transform then only snaps: \<open>inwardsDown\<close> returns the
  same selection, where the variant of src/src/extension.ts removes the last line.
\<close>

theorem selection_to_end_of_document_partial:
  "validSelection [''ab'', ''cd''] \<lparr>anchor = \<lparr>line = 0, character = 0\<rparr>, active = \<lparr>line = 1, character = 2\<rparr>\<rparr>
   \<and> \<not> isEmpty \<lparr>anchor = \<lparr>line = 0, character = 0\<rparr>, active = \<lparr>line = 1, character = 2\<rparr>\<rparr>
   \<and> sel_end \<lparr>anchor = \<lparr>line = 0, character = 0\<rparr>, active = \<lparr>line = 1, character = 2\<rparr>\<rparr>
       = endOfDocument [''ab'', ''cd'']
   \<and> hasPartialLineSelection \<lparr>anchor = \<lparr>line = 0, character = 0\<rparr>, active = \<lparr>line = 1, character = 2\<rparr>\<rparr>
         [''ab'', ''cd''] = Inr True
   \<and> inwardsDown_sel [''ab'', ''cd''] \<lparr>anchor = \<lparr>line = 0, character = 0\<rparr>, active = \<lparr>line = 1, character = 2\<rparr>\<rparr>
       = Inr \<lparr>anchor = \<lparr>line = 0, character = 0\<rparr>, active = \<lparr>line = 1, character = 2\<rparr>\<rparr>
   \<and> inwardsDown_ts_sel [''ab'', ''cd''] \<lparr>anchor = \<lparr>line = 0, character = 0\<rparr>, active = \<lparr>line = 1, character = 2\<rparr>\<rparr>
       = Inr \<lparr>anchor = \<lparr>line = 0, character = 0\<rparr>, active = \<lparr>line = 1, character = 0\<rparr>\<rparr>"
  by (simp add: eval_defs)

section \<open>The scenario on a document of five lines\<close>

lemma scenario_part:
  assumes "length doc = 5"
  shows "outwardsDown_sel doc \<lparr>anchor = \<lparr>line = 2, character = c\<rparr>, active = \<lparr>line = 2, character = c\<rparr>\<rparr>
           = Inr \<lparr>anchor = \<lparr>line = 2, character = 0\<rparr>, active = \<lparr>line = 3, character = 0\<rparr>\<rparr>"
    and "outwardsDown_sel doc \<lparr>anchor = \<lparr>line = 2, character = 0\<rparr>, active = \<lparr>line = 3, character = 0\<rparr>\<rparr>
           = Inr \<lparr>anchor = \<lparr>line = 2, character = 0\<rparr>, active = \<lparr>line = 4, character = 0\<rparr>\<rparr>"
    and "inwardsUp_sel doc \<lparr>anchor = \<lparr>line = 2, character = 0\<rparr>, active = \<lparr>line = 4, character = 0\<rparr>\<rparr>
           = Inr \<lparr>anchor = \<lparr>line = 4, character = 0\<rparr>, active = \<lparr>line = 3, character = 0\<rparr>\<rparr>"
    and "inwardsUp_sel doc \<lparr>anchor = \<lparr>line = 4, character = 0\<rparr>, active = \<lparr>line = 3, character = 0\<rparr>\<rparr>
           = Inr \<lparr>anchor = \<lparr>line = 3, character = 0\<rparr>, active = \<lparr>line = 3, character = 0\<rparr>\<rparr>"
proof -
  have lc: "lineCount doc = 5" using assms by (simp add: lineCount_def)
  show "outwardsDown_sel doc \<lparr>anchor = \<lparr>line = 2, character = c\<rparr>, active = \<lparr>line = 2, character = c\<rparr>\<rparr>
           = Inr \<lparr>anchor = \<lparr>line = 2, character = 0\<rparr>, active = \<lparr>line = 3, character = 0\<rparr>\<rparr>"
    by (simp add: outwardsDown_sel_def buildSelection_inside lc)
  show "outwardsDown_sel doc \<lparr>anchor = \<lparr>line = 2, character = 0\<rparr>, active = \<lparr>line = 3, character = 0\<rparr>\<rparr>
           = Inr \<lparr>anchor = \<lparr>line = 2, character = 0\<rparr>, active = \<lparr>line = 4, character = 0\<rparr>\<rparr>"
    by (simp add: outwardsDown_sel_def hasPartialLineSelection_def fullLineRange_def
        sel_at_line_starts buildSelection_inside lc)
  show "inwardsUp_sel doc \<lparr>anchor = \<lparr>line = 2, character = 0\<rparr>, active = \<lparr>line = 4, character = 0\<rparr>\<rparr>
           = Inr \<lparr>anchor = \<lparr>line = 4, character = 0\<rparr>, active = \<lparr>line = 3, character = 0\<rparr>\<rparr>"
    by (simp add: inwardsUp_sel_def hasPartialLineSelection_def fullLineRange_def
        sel_at_line_starts buildSelection_inside lc)
  show "inwardsUp_sel doc \<lparr>anchor = \<lparr>line = 4, character = 0\<rparr>, active = \<lparr>line = 3, character = 0\<rparr>\<rparr>
           = Inr \<lparr>anchor = \<lparr>line = 3, character = 0\<rparr>, active = \<lparr>line = 3, character = 0\<rparr>\<rparr>"
    by (simp add: inwardsUp_sel_def hasPartialLineSelection_def fullLineRange_def
        sel_at_line_starts posLineStart_inside clamp_def lc)
qed

lemma scenario_ts:
  assumes "length doc = 5"
  shows "outwardsDown_ts_sel doc \<lparr>anchor = \<lparr>line = 2, character = c\<rparr>, active = \<lparr>line = 2, character = c\<rparr>\<rparr>
           = Inr \<lparr>anchor = \<lparr>line = 2, character = 0\<rparr>, active = \<lparr>line = 3, character = 0\<rparr>\<rparr>"
    and "outwardsDown_ts_sel doc \<lparr>anchor = \<lparr>line = 2, character = 0\<rparr>, active = \<lparr>line = 3, character = 0\<rparr>\<rparr>
           = Inr \<lparr>anchor = \<lparr>line = 2, character = 0\<rparr>, active = \<lparr>line = 4, character = 0\<rparr>\<rparr>"
    and "inwardsUp_ts_sel doc \<lparr>anchor = \<lparr>line = 2, character = 0\<rparr>, active = \<lparr>line = 4, character = 0\<rparr>\<rparr>
           = Inr \<lparr>anchor = \<lparr>line = 4, character = 0\<rparr>, active = \<lparr>line = 3, character = 0\<rparr>\<rparr>"
    and "inwardsUp_ts_sel doc \<lparr>anchor = \<lparr>line = 4, character = 0\<rparr>, active = \<lparr>line = 3, character = 0\<rparr>\<rparr>
           = Inr \<lparr>anchor = \<lparr>line = 3, character = 0\<rparr>, active = \<lparr>line = 3, character = 0\<rparr>\<rparr>"
proof -
  have lc: "lineCount doc = 5" using assms by (simp add: lineCount_def)
  show "outwardsDown_ts_sel doc \<lparr>anchor = \<lparr>line = 2, character = c\<rparr>, active = \<lparr>line = 2, character = c\<rparr>\<rparr>
           = Inr \<lparr>anchor = \<lparr>line = 2, character = 0\<rparr>, active = \<lparr>line = 3, character = 0\<rparr>\<rparr>"
    by (simp add: outwardsDown_ts_sel_def buildSelection_inside lc)
  show "outwardsDown_ts_sel doc \<lparr>anchor = \<lparr>line = 2, character = 0\<rparr>, active = \<lparr>line = 3, character = 0\<rparr>\<rparr>
           = Inr \<lparr>anchor = \<lparr>line = 2, character = 0\<rparr>, active = \<lparr>line = 4, character = 0\<rparr>\<rparr>"
    by (simp add: outwardsDown_ts_sel_def fullLineRange_ts_def
        sel_at_line_starts buildSelection_inside lc)
  show "inwardsUp_ts_sel doc \<lparr>anchor = \<lparr>line = 2, character = 0\<rparr>, active = \<lparr>line = 4, character = 0\<rparr>\<rparr>
           = Inr \<lparr>anchor = \<lparr>line = 4, character = 0\<rparr>, active = \<lparr>line = 3, character = 0\<rparr>\<rparr>"
    by (simp add: inwardsUp_ts_sel_def fullLineRange_ts_def
        sel_at_line_starts buildSelection_inside lc)
  show "inwardsUp_ts_sel doc \<lparr>anchor = \<lparr>line = 4, character = 0\<rparr>, active = \<lparr>line = 3, character = 0\<rparr>\<rparr>
           = Inr \<lparr>anchor = \<lparr>line = 3, character = 0\<rparr>, active = \<lparr>line = 3, character = 0\<rparr>\<rparr>"
    by (simp add: inwardsUp_ts_sel_def fullLineRange_ts_def
        sel_at_line_starts posLineStart_inside clamp_def lc)
qed

text \<open>
  C6. On every document of five lines (empty or not) and for a caret anywhere on
  line 2: \<open>outwardsDown\<close> selects from column 0 of line 2 to column 0 of line 3; a second
  \<open>outwardsDown\<close> selects from column 0 of line 2, the anchor, to column 0 of line 4;
  \<open>inwardsUp\<close> then selects from column 0 of line 3 to column 0 of line 4, the anchor;
  a second \<open>inwardsUp\<close> returns the caret at column 0 of line 3. Both variants of the
  extension behave so.
\<close>

theorem scenario_five_lines:
  assumes "length doc = 5"
  shows "(outwardsDown_sel doc \<lparr>anchor = \<lparr>line = 2, character = c\<rparr>, active = \<lparr>line = 2, character = c\<rparr>\<rparr>
           = Inr \<lparr>anchor = \<lparr>line = 2, character = 0\<rparr>, active = \<lparr>line = 3, character = 0\<rparr>\<rparr>
       \<and> outwardsDown_sel doc \<lparr>anchor = \<lparr>line = 2, character = 0\<rparr>, active = \<lparr>line = 3, character = 0\<rparr>\<rparr>
           = Inr \<lparr>anchor = \<lparr>line = 2, character = 0\<rparr>, active = \<lparr>line = 4, character = 0\<rparr>\<rparr>
       \<and> inwardsUp_sel doc \<lparr>anchor = \<lparr>line = 2, character = 0\<rparr>, active = \<lparr>line = 4, character = 0\<rparr>\<rparr>
           = Inr \<lparr>anchor = \<lparr>line = 4, character = 0\<rparr>, active = \<lparr>line = 3, character = 0\<rparr>\<rparr>
       \<and> inwardsUp_sel doc \<lparr>anchor = \<lparr>line = 4, character = 0\<rparr>, active = \<lparr>line = 3, character = 0\<rparr>\<rparr>
           = Inr \<lparr>anchor = \<lparr>line = 3, character = 0\<rparr>, active = \<lparr>line = 3, character = 0\<rparr>\<rparr>)
     \<and> (outwardsDown_ts_sel doc \<lparr>anchor = \<lparr>line = 2, character = c\<rparr>, active = \<lparr>line = 2, character = c\<rparr>\<rparr>
           = Inr \<lparr>anchor = \<lparr>line = 2, character = 0\<rparr>, active = \<lparr>line = 3, character = 0\<rparr>\<rparr>
       \<and> outwardsDown_ts_sel doc \<lparr>anchor = \<lparr>line = 2, character = 0\<rparr>, active = \<lparr>line = 3, character = 0\<rparr>\<rparr>
           = Inr \<lparr>anchor = \<lparr>line = 2, character = 0\<rparr>, active = \<lparr>line = 4, character = 0\<rparr>\<rparr>
       \<and> inwardsUp_ts_sel doc \<lparr>anchor = \<lparr>line = 2, character = 0\<rparr>, active = \<lparr>line = 4, character = 0\<rparr>\<rparr>
           = Inr \<lparr>anchor = \<lparr>line = 4, character = 0\<rparr>, active = \<lparr>line = 3, character = 0\<rparr>\<rparr>
       \<and> inwardsUp_ts_sel doc \<lparr>anchor = \<lparr>line = 4, character = 0\<rparr>, active = \<lparr>line = 3, character = 0\<rparr>\<rparr>
           = Inr \<lparr>anchor = \<lparr>line = 3, character = 0\<rparr>, active = \<lparr>line = 3, character = 0\<rparr>\<rparr>)"
  using scenario_part [OF assms] scenario_ts [OF assms] by blast

theorem scenario_five_lines_witness:
  "length [''ab'', ''cd'', ''ef'', ''gh'', ''ij''] = 5
   \<and> outwardsDown_sel [''ab'', ''cd'', ''ef'', ''gh'', ''ij'']
        \<lparr>anchor = \<lparr>line = 2, character = 1\<rparr>, active = \<lparr>line = 2, character = 1\<rparr>\<rparr>
      = Inr \<lparr>anchor = \<lparr>line = 2, character = 0\<rparr>, active = \<lparr>line = 3, character = 0\<rparr>\<rparr>
   \<and> inwardsUp_sel [''ab'', ''cd'', ''ef'', ''gh'', ''ij'']
        \<lparr>anchor = \<lparr>line = 4, character = 0\<rparr>, active = \<lparr>line = 3, character = 0\<rparr>\<rparr>
      = Inr \<lparr>anchor = \<lparr>line = 3, character = 0\<rparr>, active = \<lparr>line = 3, character = 0\<rparr>\<rparr>"
  using scenario_five_lines [of "[''ab'', ''cd'', ''ef'', ''gh'', ''ij'']" 1] by simp

section \<open>Growing upward at the first line\<close>

text \<open>
  C10. For a selection that is not empty and not partial and whose resolved range is
  \<open>(0, botEx)\<close>, \<open>outwardsUp\<close> returns the selection built from the same range
  \<open>(0, botEx)\<close> with the anchor at the end: the top stays at line 0 and the bottom
  bound is the resolved one. When the selection lies inside the document the result is
  the selection from column 0 of line 0 to column 0 of the line of the selection's end,
  anchored there. The variant of src/src/extension.ts, which has no partial-selection
  test, does the same for every selection that is not empty.
\<close>

theorem outwardsUp_at_first_line:
  assumes "\<not> isEmpty sel"
  shows "(hasPartialLineSelection sel doc = Inr False \<and> fullLineRange sel doc = Inr (0, botEx)
            \<longrightarrow> outwardsUp_sel doc sel = buildSelection doc 0 botEx True
              \<and> (validSelection doc sel \<longrightarrow>
                   outwardsUp_sel doc sel =
                     Inr \<lparr>anchor = \<lparr>line = line (sel_end sel), character = 0\<rparr>,
                          active = \<lparr>line = 0, character = 0\<rparr>\<rparr>))
       \<and> (fullLineRange_ts sel doc = (0, botEx)
            \<longrightarrow> outwardsUp_ts_sel doc sel = buildSelection doc 0 botEx True)"
proof -
  have "outwardsUp_sel doc sel = buildSelection doc 0 botEx True"
    if "hasPartialLineSelection sel doc = Inr False" "fullLineRange sel doc = Inr (0, botEx)"
    using that assms by (simp add: outwardsUp_sel_def)
  moreover have "buildSelection doc 0 botEx True =
      Inr \<lparr>anchor = \<lparr>line = line (sel_end sel), character = 0\<rparr>, active = \<lparr>line = 0, character = 0\<rparr>\<rparr>"
    if p: "hasPartialLineSelection sel doc = Inr False" and r: "fullLineRange sel doc = Inr (0, botEx)"
      and v: "validSelection doc sel"
  proof -
    from r p assms have b: "botEx = int (line (sel_end sel))"
      by (simp add: fullLineRange_def pMax_end)
    from v have "line (sel_end sel) < length doc"
      using valid_end by (auto simp: validPosition_def)
    then have "int (line (sel_end sel)) < lineCount doc" "0 < lineCount doc"
      by (auto simp: lineCount_def)
    then show ?thesis
      using b buildSelection_inside [of 0 doc "int (line (sel_end sel))" True] by simp
  qed
  moreover have "outwardsUp_ts_sel doc sel = buildSelection doc 0 botEx True"
    if "fullLineRange_ts sel doc = (0, botEx)"
    using that assms by (simp add: outwardsUp_ts_sel_def)
  ultimately show ?thesis by simp
qed

theorem outwardsUp_at_first_line_witness:
  "\<not> isEmpty \<lparr>anchor = \<lparr>line = 2, character = 0\<rparr>, active = \<lparr>line = 0, character = 0\<rparr>\<rparr>
   \<and> hasPartialLineSelection \<lparr>anchor = \<lparr>line = 2, character = 0\<rparr>, active = \<lparr>line = 0, character = 0\<rparr>\<rparr>
        [''ab'', ''cd'', ''ef''] = Inr False
   \<and> fullLineRange \<lparr>anchor = \<lparr>line = 2, character = 0\<rparr>, active = \<lparr>line = 0, character = 0\<rparr>\<rparr>
        [''ab'', ''cd'', ''ef''] = Inr (0, 2)
   \<and> fullLineRange_ts \<lparr>anchor = \<lparr>line = 2, character = 0\<rparr>, active = \<lparr>line = 0, character = 0\<rparr>\<rparr>
        [''ab'', ''cd'', ''ef''] = (0, 2)
   \<and> validSelection [''ab'', ''cd'', ''ef'']
        \<lparr>anchor = \<lparr>line = 2, character = 0\<rparr>, active = \<lparr>line = 0, character = 0\<rparr>\<rparr>
   \<and> outwardsUp_sel [''ab'', ''cd'', ''ef'']
        \<lparr>anchor = \<lparr>line = 2, character = 0\<rparr>, active = \<lparr>line = 0, character = 0\<rparr>\<rparr>
      = Inr \<lparr>anchor = \<lparr>line = 2, character = 0\<rparr>, active = \<lparr>line = 0, character = 0\<rparr>\<rparr>
   \<and> outwardsUp_ts_sel [''ab'', ''cd'', ''ef'']
        \<lparr>anchor = \<lparr>line = 2, character = 0\<rparr>, active = \<lparr>line = 0, character = 0\<rparr>\<rparr>
      = buildSelection [''ab'', ''cd'', ''ef''] 0 2 True"
proof -
  have ne: "\<not> isEmpty \<lparr>anchor = \<lparr>line = 2, character = 0\<rparr>, active = \<lparr>line = 0, character = 0\<rparr>\<rparr>"
    by (simp add: eval_defs)
  have p: "hasPartialLineSelection \<lparr>anchor = \<lparr>line = 2, character = 0\<rparr>, active = \<lparr>line = 0, character = 0\<rparr>\<rparr>
        [''ab'', ''cd'', ''ef''] = Inr False"
    by (simp add: eval_defs)
  have r: "fullLineRange \<lparr>anchor = \<lparr>line = 2, character = 0\<rparr>, active = \<lparr>line = 0, character = 0\<rparr>\<rparr>
        [''ab'', ''cd'', ''ef''] = Inr (0, 2)"
    by (simp add: eval_defs)
  have rt: "fullLineRange_ts \<lparr>anchor = \<lparr>line = 2, character = 0\<rparr>, active = \<lparr>line = 0, character = 0\<rparr>\<rparr>
        [''ab'', ''cd'', ''ef''] = (0, 2)"
    by (simp add: eval_defs)
  have v: "validSelection [''ab'', ''cd'', ''ef'']
        \<lparr>anchor = \<lparr>line = 2, character = 0\<rparr>, active = \<lparr>line = 0, character = 0\<rparr>\<rparr>"
    by (simp add: eval_defs)
  have e: "sel_end \<lparr>anchor = \<lparr>line = 2, character = 0\<rparr>, active = \<lparr>line = 0, character = 0\<rparr>\<rparr>
      = \<lparr>line = 2, character = 0\<rparr>"
    by (simp add: eval_defs)
  from outwardsUp_at_first_line [OF ne, of "[''ab'', ''cd'', ''ef'']" 2] p r rt v
  have "outwardsUp_sel [''ab'', ''cd'', ''ef'']
          \<lparr>anchor = \<lparr>line = 2, character = 0\<rparr>, active = \<lparr>line = 0, character = 0\<rparr>\<rparr>
        = Inr \<lparr>anchor = \<lparr>line = line (sel_end \<lparr>anchor = \<lparr>line = 2, character = 0\<rparr>,
                   active = \<lparr>line = 0, character = 0\<rparr>\<rparr>), character = 0\<rparr>,
                 active = \<lparr>line = 0, character = 0\<rparr>\<rparr>"
    and "outwardsUp_ts_sel [''ab'', ''cd'', ''ef'']
          \<lparr>anchor = \<lparr>line = 2, character = 0\<rparr>, active = \<lparr>line = 0, character = 0\<rparr>\<rparr>
        = buildSelection [''ab'', ''cd'', ''ef''] 0 2 True"
    by blast+
  with ne p r rt v e show ?thesis by simp
qed

section \<open>The pinned side\<close>

text \<open>
  The line of the bottom endpoint is the last line the selection covers: a selection
  that ends at column 0 of line \<open>N\<close> ends on line \<open>N - 1\<close>. Read so, the upward
  transforms of src/src/extension.ts keep the bottom line of every selection inside
  the document, and its downward transforms keep the line of the top endpoint (lemmas
  \<open>bottom_row_ts\<close> and \<open>pin_down_ts\<close>). The transforms of src/unnamed/part_001 keep the
  top line too (\<open>pin_down\<close>), and the bottom line of every selection that is empty,
  partial, or ends at column 0 (\<open>bottom_row_part\<close>).

  C3. They do not keep it for a non-partial selection that ends at the end of its
  line's text, for which the resolver returns a range without lines. In the document
  \<open>[''ab'', ''cd'']\<close>, \<open>outwardsUp\<close> on the caret at line 1 selects line 1, from its
  column 0 to the end of the document, anchored at the end. A second \<open>outwardsUp\<close>
  returns the selection from column 0 of line 0 to column 0 of line 1: it is not a
  caret, its bottom line is 0 and no longer 1, and line 1 is not selected any more. On
  the same selection \<open>outwardsUp\<close> of src/src/extension.ts returns lines 0 and 1, with
  the bottom line 1.
\<close>

theorem last_line_selection_loses_bottom:
  "outwardsUp_sel [''ab'', ''cd'']
       \<lparr>anchor = \<lparr>line = 1, character = 0\<rparr>, active = \<lparr>line = 1, character = 0\<rparr>\<rparr>
     = Inr \<lparr>anchor = \<lparr>line = 1, character = 2\<rparr>, active = \<lparr>line = 1, character = 0\<rparr>\<rparr>
   \<and> validSelection [''ab'', ''cd''] \<lparr>anchor = \<lparr>line = 1, character = 2\<rparr>, active = \<lparr>line = 1, character = 0\<rparr>\<rparr>
   \<and> \<not> isEmpty \<lparr>anchor = \<lparr>line = 1, character = 2\<rparr>, active = \<lparr>line = 1, character = 0\<rparr>\<rparr>
   \<and> hasPartialLineSelection \<lparr>anchor = \<lparr>line = 1, character = 2\<rparr>, active = \<lparr>line = 1, character = 0\<rparr>\<rparr> [''ab'', ''cd''] = Inr False
   \<and> fullLineRange \<lparr>anchor = \<lparr>line = 1, character = 2\<rparr>, active = \<lparr>line = 1, character = 0\<rparr>\<rparr> [''ab'', ''cd''] = Inr (1, 1)
   \<and> actualBottomLine \<lparr>anchor = \<lparr>line = 1, character = 2\<rparr>, active = \<lparr>line = 1, character = 0\<rparr>\<rparr> = 1
   \<and> outwardsUp_sel [''ab'', ''cd''] \<lparr>anchor = \<lparr>line = 1, character = 2\<rparr>, active = \<lparr>line = 1, character = 0\<rparr>\<rparr>
     = Inr \<lparr>anchor = \<lparr>line = 1, character = 0\<rparr>, active = \<lparr>line = 0, character = 0\<rparr>\<rparr>
   \<and> \<not> isEmpty \<lparr>anchor = \<lparr>line = 1, character = 0\<rparr>, active = \<lparr>line = 0, character = 0\<rparr>\<rparr>
   \<and> actualBottomLine \<lparr>anchor = \<lparr>line = 1, character = 0\<rparr>, active = \<lparr>line = 0, character = 0\<rparr>\<rparr>
     = 0
   \<and> outwardsUp_ts_sel [''ab'', ''cd''] \<lparr>anchor = \<lparr>line = 1, character = 2\<rparr>, active = \<lparr>line = 1, character = 0\<rparr>\<rparr>
     = Inr \<lparr>anchor = \<lparr>line = 1, character = 2\<rparr>, active = \<lparr>line = 0, character = 0\<rparr>\<rparr>
   \<and> actualBottomLine \<lparr>anchor = \<lparr>line = 1, character = 2\<rparr>, active = \<lparr>line = 0, character = 0\<rparr>\<rparr>
     = 1"
  by (simp add: eval_defs actualBottomLine_def)

section \<open>Monotonic bound\<close>

text \<open>
  The transforms of src/src/extension.ts satisfy the claim on every selection inside
  the document, whether the size of the result is read from the range handed to the
  builder (lemma \<open>sizes_ts\<close>) or resolved again from the returned selection (lemma
  \<open>monotonic_ts\<close>).

  C4. The transforms of src/unnamed/part_001 do not. In the document
  \<open>[''ab'', ''cd'']\<close> the selection of the text of line 0, from column 0 to column 2, is
  not empty and covers one line (the guarded resolver returns \<open>(0, 1)\<close>), and the
  outward transform \<open>outwardsUp\<close> returns the caret at line 0, column 0, which is the
  selection built from the range \<open>(0, 0)\<close>: the selection has become empty, where
  \<open>outwardsUp\<close> of src/src/extension.ts keeps the line. Measured by the resolver of
  src/unnamed/part_001 itself, in the document \<open>[''ab'']\<close> the caret at line 0 has the
  range \<open>(0, 1)\<close> and \<open>outwardsDown\<close> turns it into a selection of range \<open>(0, 0)\<close>,
  which \<open>inwardsDown\<close> turns back into the caret of range \<open>(0, 1)\<close>: the outward
  transform decreases the size and the inward transform increases it.
\<close>

theorem outward_shrinks_whole_text_selection:
  "validSelection [''ab'', ''cd''] \<lparr>anchor = \<lparr>line = 0, character = 0\<rparr>, active = \<lparr>line = 0, character = 2\<rparr>\<rparr>
   \<and> \<not> isEmpty \<lparr>anchor = \<lparr>line = 0, character = 0\<rparr>, active = \<lparr>line = 0, character = 2\<rparr>\<rparr>
   \<and> fullLineRange_ts \<lparr>anchor = \<lparr>line = 0, character = 0\<rparr>, active = \<lparr>line = 0, character = 2\<rparr>\<rparr> [''ab'', ''cd''] = (0, 1)
   \<and> rangeSize_ts [''ab'', ''cd''] \<lparr>anchor = \<lparr>line = 0, character = 0\<rparr>, active = \<lparr>line = 0, character = 2\<rparr>\<rparr> = 1
   \<and> fullLineRange \<lparr>anchor = \<lparr>line = 0, character = 0\<rparr>, active = \<lparr>line = 0, character = 2\<rparr>\<rparr> [''ab'', ''cd''] = Inr (0, 0)
   \<and> outwardsUp_sel [''ab'', ''cd''] \<lparr>anchor = \<lparr>line = 0, character = 0\<rparr>, active = \<lparr>line = 0, character = 2\<rparr>\<rparr> = Inr \<lparr>anchor = \<lparr>line = 0, character = 0\<rparr>, active = \<lparr>line = 0, character = 0\<rparr>\<rparr>
   \<and> buildSelection [''ab'', ''cd''] 0 0 True = Inr \<lparr>anchor = \<lparr>line = 0, character = 0\<rparr>, active = \<lparr>line = 0, character = 0\<rparr>\<rparr>
   \<and> isEmpty \<lparr>anchor = \<lparr>line = 0, character = 0\<rparr>, active = \<lparr>line = 0, character = 0\<rparr>\<rparr>
   \<and> outwardsUp_ts_sel [''ab'', ''cd''] \<lparr>anchor = \<lparr>line = 0, character = 0\<rparr>, active = \<lparr>line = 0, character = 2\<rparr>\<rparr>
     = Inr \<lparr>anchor = \<lparr>line = 1, character = 0\<rparr>, active = \<lparr>line = 0, character = 0\<rparr>\<rparr>
   \<and> fullLineRange \<lparr>anchor = \<lparr>line = 0, character = 0\<rparr>, active = \<lparr>line = 0, character = 0\<rparr>\<rparr> [''ab''] = Inr (0, 1)
   \<and> outwardsDown_sel [''ab''] \<lparr>anchor = \<lparr>line = 0, character = 0\<rparr>, active = \<lparr>line = 0, character = 0\<rparr>\<rparr> = Inr \<lparr>anchor = \<lparr>line = 0, character = 0\<rparr>, active = \<lparr>line = 0, character = 2\<rparr>\<rparr>
   \<and> fullLineRange \<lparr>anchor = \<lparr>line = 0, character = 0\<rparr>, active = \<lparr>line = 0, character = 2\<rparr>\<rparr> [''ab''] = Inr (0, 0)
   \<and> inwardsDown_sel [''ab''] \<lparr>anchor = \<lparr>line = 0, character = 0\<rparr>, active = \<lparr>line = 0, character = 2\<rparr>\<rparr> = Inr \<lparr>anchor = \<lparr>line = 0, character = 0\<rparr>, active = \<lparr>line = 0, character = 0\<rparr>\<rparr>"
  by (simp add: eval_defs rangeSize_ts_def)

section \<open>Collapse of a single selected line\<close>

text \<open>
  C7. Let a selection inside the document be not empty and not partial, with the
  resolved range \<open>(L, b)\<close> of at most one line (\<open>b \<le> L + 1\<close>; for the selection from
  column 0 of line \<open>L\<close> to column 0 of line \<open>L + 1\<close> the range is \<open>(L, L + 1)\<close>). Then
  \<open>inwardsDown\<close> returns the empty selection at column 0 of line \<open>L\<close>. The variant of
  src/src/extension.ts does the same for every selection that resolves to the one
  line \<open>(L, L + 1)\<close>.
\<close>

theorem inwardsDown_single_line:
  assumes "validSelection doc sel" "\<not> isEmpty sel"
  shows "(hasPartialLineSelection sel doc = Inr False \<and> fullLineRange sel doc = Inr (int L, b)
              \<and> b \<le> int L + 1
            \<longrightarrow> inwardsDown_sel doc sel =
                  Inr \<lparr>anchor = \<lparr>line = L, character = 0\<rparr>, active = \<lparr>line = L, character = 0\<rparr>\<rparr>)
       \<and> (fullLineRange_ts sel doc = (int L, int L + 1)
            \<longrightarrow> inwardsDown_ts_sel doc sel =
                  Inr \<lparr>anchor = \<lparr>line = L, character = 0\<rparr>, active = \<lparr>line = L, character = 0\<rparr>\<rparr>)"
proof -
  from assms(1) have ls: "line (sel_start sel) < length doc"
    using valid_start by (auto simp: validPosition_def)
  have "inwardsDown_sel doc sel =
      Inr \<lparr>anchor = \<lparr>line = L, character = 0\<rparr>, active = \<lparr>line = L, character = 0\<rparr>\<rparr>"
    if p: "hasPartialLineSelection sel doc = Inr False"
      and r: "fullLineRange sel doc = Inr (int L, b)" and b: "b \<le> int L + 1"
  proof -
    from fullLineRange_valid [OF assms(1)] r have "int L = int (line (sel_start sel))" by auto
    with ls have "int L < lineCount doc" by (simp add: lineCount_def)
    then have "posLineStart doc (int L) = Inr \<lparr>line = L, character = 0\<rparr>"
      using posLineStart_inside [of "int L" doc] by simp
    with p r b show ?thesis by (simp add: inwardsDown_sel_def)
  qed
  moreover have "inwardsDown_ts_sel doc sel =
      Inr \<lparr>anchor = \<lparr>line = L, character = 0\<rparr>, active = \<lparr>line = L, character = 0\<rparr>\<rparr>"
    if r: "fullLineRange_ts sel doc = (int L, int L + 1)"
  proof -
    from fullLineRange_ts_valid [OF assms(1)] r have "int L = int (line (sel_start sel))" by auto
    with ls have "int L < lineCount doc" by (simp add: lineCount_def)
    then have "posLineStart doc (int L) = Inr \<lparr>line = L, character = 0\<rparr>"
      using posLineStart_inside [of "int L" doc] by simp
    with r show ?thesis by (simp add: inwardsDown_ts_sel_def)
  qed
  ultimately show ?thesis by blast
qed

theorem inwardsDown_single_line_witness:
  "validSelection [''ab'', ''cd''] \<lparr>anchor = \<lparr>line = 0, character = 0\<rparr>, active = \<lparr>line = 1, character = 0\<rparr>\<rparr>
   \<and> \<not> isEmpty \<lparr>anchor = \<lparr>line = 0, character = 0\<rparr>, active = \<lparr>line = 1, character = 0\<rparr>\<rparr>
   \<and> hasPartialLineSelection \<lparr>anchor = \<lparr>line = 0, character = 0\<rparr>, active = \<lparr>line = 1, character = 0\<rparr>\<rparr> [''ab'', ''cd''] = Inr False
   \<and> fullLineRange \<lparr>anchor = \<lparr>line = 0, character = 0\<rparr>, active = \<lparr>line = 1, character = 0\<rparr>\<rparr> [''ab'', ''cd''] = Inr (int 0, 1) \<and> (1::int) \<le> int 0 + 1
   \<and> fullLineRange_ts \<lparr>anchor = \<lparr>line = 0, character = 0\<rparr>, active = \<lparr>line = 1, character = 0\<rparr>\<rparr> [''ab'', ''cd''] = (int 0, int 0 + 1)
   \<and> inwardsDown_sel [''ab'', ''cd''] \<lparr>anchor = \<lparr>line = 0, character = 0\<rparr>, active = \<lparr>line = 1, character = 0\<rparr>\<rparr> = Inr \<lparr>anchor = \<lparr>line = 0, character = 0\<rparr>, active = \<lparr>line = 0, character = 0\<rparr>\<rparr>
   \<and> inwardsDown_ts_sel [''ab'', ''cd''] \<lparr>anchor = \<lparr>line = 0, character = 0\<rparr>, active = \<lparr>line = 1, character = 0\<rparr>\<rparr> = Inr \<lparr>anchor = \<lparr>line = 0, character = 0\<rparr>, active = \<lparr>line = 0, character = 0\<rparr>\<rparr>"
proof -
  have v: "validSelection [''ab'', ''cd''] \<lparr>anchor = \<lparr>line = 0, character = 0\<rparr>, active = \<lparr>line = 1, character = 0\<rparr>\<rparr>"
    and ne: "\<not> isEmpty \<lparr>anchor = \<lparr>line = 0, character = 0\<rparr>, active = \<lparr>line = 1, character = 0\<rparr>\<rparr>"
    and p: "hasPartialLineSelection \<lparr>anchor = \<lparr>line = 0, character = 0\<rparr>, active = \<lparr>line = 1, character = 0\<rparr>\<rparr> [''ab'', ''cd''] = Inr False"
    and r: "fullLineRange \<lparr>anchor = \<lparr>line = 0, character = 0\<rparr>, active = \<lparr>line = 1, character = 0\<rparr>\<rparr> [''ab'', ''cd''] = Inr (int 0, 1)"
    and rt: "fullLineRange_ts \<lparr>anchor = \<lparr>line = 0, character = 0\<rparr>, active = \<lparr>line = 1, character = 0\<rparr>\<rparr> [''ab'', ''cd''] = (int 0, int 0 + 1)"
    by (simp_all add: eval_defs)
  have b: "(1::int) \<le> int 0 + 1" by simp
  from inwardsDown_single_line [OF v ne, of 0 1] p r rt b
  have "inwardsDown_sel [''ab'', ''cd''] \<lparr>anchor = \<lparr>line = 0, character = 0\<rparr>, active = \<lparr>line = 1, character = 0\<rparr>\<rparr> = Inr \<lparr>anchor = \<lparr>line = 0, character = 0\<rparr>, active = \<lparr>line = 0, character = 0\<rparr>\<rparr>"
    and "inwardsDown_ts_sel [''ab'', ''cd''] \<lparr>anchor = \<lparr>line = 0, character = 0\<rparr>, active = \<lparr>line = 1, character = 0\<rparr>\<rparr> = Inr \<lparr>anchor = \<lparr>line = 0, character = 0\<rparr>, active = \<lparr>line = 0, character = 0\<rparr>\<rparr>"
    by blast+
  with v ne p r rt b show ?thesis by blast
qed

section \<open>Every result is defined and inside the document\<close>

text \<open>
  C8, as amended. In a document of at least one line, each of the four transforms
  returns a selection, and both positions of that selection lie inside the document
  (a line number beyond the last line is clamped): in the variant of
  src/src/extension.ts for every selection whatsoever, in the variant of
  src/unnamed/part_001 for every selection that starts on a line of the document.
  In the empty document, which has the one line \<open>''''\<close>, every transform returns the
  caret at line 0, column 0.
\<close>

theorem transforms_defined_inside:
  assumes "1 \<le> lineCount doc"
  shows "(line (sel_start sel) < length doc \<longrightarrow>
           (\<forall>f \<in> set [outwardsUp_sel, inwardsUp_sel, outwardsDown_sel, inwardsDown_sel].
              \<exists>out. f doc sel = Inr out \<and> validSelection doc out))
       \<and> (\<forall>f \<in> set [outwardsUp_ts_sel, inwardsUp_ts_sel, outwardsDown_ts_sel, inwardsDown_ts_sel].
              \<exists>out. f doc sel = Inr out \<and> validSelection doc out)
       \<and> (doc = [''''] \<and> validSelection doc sel \<longrightarrow>
           (\<forall>f \<in> set [outwardsUp_sel, inwardsUp_sel, outwardsDown_sel, inwardsDown_sel,
                        outwardsUp_ts_sel, inwardsUp_ts_sel, outwardsDown_ts_sel, inwardsDown_ts_sel].
              f doc sel = Inr \<lparr>anchor = \<lparr>line = 0, character = 0\<rparr>, active = \<lparr>line = 0, character = 0\<rparr>\<rparr>))"
proof -
  from assms have d: "doc \<noteq> []" by (auto simp: lineCount_def)
  have e: "f doc sel = Inr \<lparr>anchor = \<lparr>line = 0, character = 0\<rparr>, active = \<lparr>line = 0, character = 0\<rparr>\<rparr>"
    if "doc = ['''']" "validSelection doc sel"
      "f \<in> set [outwardsUp_sel, inwardsUp_sel, outwardsDown_sel, inwardsDown_sel,
                outwardsUp_ts_sel, inwardsUp_ts_sel, outwardsDown_ts_sel, inwardsDown_ts_sel]" for f
    using that valid_in_empty_line [of sel] caret_in_empty_line [of f] by simp
  have a: "\<exists>out. f doc sel = Inr out \<and> validSelection doc out"
    if "\<exists>out. f doc sel = Inr out" "\<And>out. f doc sel = Inr out \<Longrightarrow> lineAligned doc out"
    for f :: "document \<Rightarrow> selection \<Rightarrow> error + selection"
    using that aligned_valid [OF d] by blast
  have "\<exists>out. f doc sel = Inr out \<and> validSelection doc out"
    if "line (sel_start sel) < length doc"
      "f \<in> set [outwardsUp_sel, inwardsUp_sel, outwardsDown_sel, inwardsDown_sel]" for f
    using that transforms_defined_start_inside [OF that(1)] transforms_aligned [OF d, of sel]
    by (auto intro!: a)
  moreover have "\<exists>out. f doc sel = Inr out \<and> validSelection doc out"
    if "f \<in> set [outwardsUp_ts_sel, inwardsUp_ts_sel, outwardsDown_ts_sel, inwardsDown_ts_sel]" for f
    using that transforms_ts_defined [OF d, of sel] transforms_ts_aligned [OF d, of sel]
    by (auto intro!: a)
  ultimately show ?thesis using e by blast
qed

theorem transforms_defined_inside_witness:
  "1 \<le> lineCount [''ab'']
   \<and> line (sel_start \<lparr>anchor = \<lparr>line = 0, character = 1\<rparr>, active = \<lparr>line = 5, character = 3\<rparr>\<rparr>) < length [''ab'']
   \<and> \<not> validSelection [''ab''] \<lparr>anchor = \<lparr>line = 0, character = 1\<rparr>, active = \<lparr>line = 5, character = 3\<rparr>\<rparr>
   \<and> (\<exists>out. outwardsDown_sel [''ab''] \<lparr>anchor = \<lparr>line = 0, character = 1\<rparr>, active = \<lparr>line = 5, character = 3\<rparr>\<rparr> = Inr out \<and> validSelection [''ab''] out)
   \<and> (\<exists>out. inwardsUp_ts_sel [''ab''] \<lparr>anchor = \<lparr>line = 0, character = 1\<rparr>, active = \<lparr>line = 5, character = 3\<rparr>\<rparr> = Inr out \<and> validSelection [''ab''] out)
   \<and> 1 \<le> lineCount ['''']
   \<and> validSelection [''''] \<lparr>anchor = \<lparr>line = 0, character = 0\<rparr>, active = \<lparr>line = 0, character = 0\<rparr>\<rparr>
   \<and> outwardsDown_sel [''''] \<lparr>anchor = \<lparr>line = 0, character = 0\<rparr>, active = \<lparr>line = 0, character = 0\<rparr>\<rparr> = Inr \<lparr>anchor = \<lparr>line = 0, character = 0\<rparr>, active = \<lparr>line = 0, character = 0\<rparr>\<rparr>
   \<and> outwardsUp_ts_sel [''''] \<lparr>anchor = \<lparr>line = 0, character = 0\<rparr>, active = \<lparr>line = 0, character = 0\<rparr>\<rparr> = Inr \<lparr>anchor = \<lparr>line = 0, character = 0\<rparr>, active = \<lparr>line = 0, character = 0\<rparr>\<rparr>"
proof -
  have l: "1 \<le> lineCount [''ab'']"
    and s: "line (sel_start \<lparr>anchor = \<lparr>line = 0, character = 1\<rparr>, active = \<lparr>line = 5, character = 3\<rparr>\<rparr>) < length [''ab'']"
    and n: "\<not> validSelection [''ab''] \<lparr>anchor = \<lparr>line = 0, character = 1\<rparr>, active = \<lparr>line = 5, character = 3\<rparr>\<rparr>"
    by (simp_all add: eval_defs)
  from transforms_defined_inside [OF l, of "\<lparr>anchor = \<lparr>line = 0, character = 1\<rparr>, active = \<lparr>line = 5, character = 3\<rparr>\<rparr>"] s
  have o: "\<exists>out. outwardsDown_sel [''ab''] \<lparr>anchor = \<lparr>line = 0, character = 1\<rparr>, active = \<lparr>line = 5, character = 3\<rparr>\<rparr> = Inr out \<and> validSelection [''ab''] out"
    "\<exists>out. inwardsUp_ts_sel [''ab''] \<lparr>anchor = \<lparr>line = 0, character = 1\<rparr>, active = \<lparr>line = 5, character = 3\<rparr>\<rparr> = Inr out \<and> validSelection [''ab''] out"
    by simp_all
  have l': "1 \<le> lineCount ['''']" and v: "validSelection [''''] \<lparr>anchor = \<lparr>line = 0, character = 0\<rparr>, active = \<lparr>line = 0, character = 0\<rparr>\<rparr>"
    by (simp_all add: eval_defs)
  from transforms_defined_inside [OF l', of "\<lparr>anchor = \<lparr>line = 0, character = 0\<rparr>, active = \<lparr>line = 0, character = 0\<rparr>\<rparr>"] v
  have o': "outwardsDown_sel [''''] \<lparr>anchor = \<lparr>line = 0, character = 0\<rparr>, active = \<lparr>line = 0, character = 0\<rparr>\<rparr> = Inr \<lparr>anchor = \<lparr>line = 0, character = 0\<rparr>, active = \<lparr>line = 0, character = 0\<rparr>\<rparr>" "outwardsUp_ts_sel [''''] \<lparr>anchor = \<lparr>line = 0, character = 0\<rparr>, active = \<lparr>line = 0, character = 0\<rparr>\<rparr> = Inr \<lparr>anchor = \<lparr>line = 0, character = 0\<rparr>, active = \<lparr>line = 0, character = 0\<rparr>\<rparr>"
    by simp_all
  from l s n o l' v o' show ?thesis by blast
qed

text \<open>
  The claim as stated fails on a document without lines: the builder reads
  \<open>doc.lineAt(lineCount - 1)\<close>, that is \<open>doc.lineAt(-1)\<close>, which throws, so the outward
  transforms of both variants have no output for the caret at line 0. In the variant
  of src/unnamed/part_001 the partial-selection test reads \<open>doc.lineAt(pMin.line)\<close>
  unclamped, so a selection within one line beyond the last line, starting at column 0,
  has no output either.
\<close>

theorem transforms_defined_counterexample:
  "lineCount [] = 0
   \<and> outwardsDown_sel [] \<lparr>anchor = \<lparr>line = 0, character = 0\<rparr>, active = \<lparr>line = 0, character = 0\<rparr>\<rparr> = Inl IllegalLine
   \<and> outwardsUp_sel [] \<lparr>anchor = \<lparr>line = 0, character = 0\<rparr>, active = \<lparr>line = 0, character = 0\<rparr>\<rparr> = Inl IllegalLine
   \<and> outwardsDown_ts_sel [] \<lparr>anchor = \<lparr>line = 0, character = 0\<rparr>, active = \<lparr>line = 0, character = 0\<rparr>\<rparr> = Inl IllegalLine
   \<and> outwardsUp_ts_sel [] \<lparr>anchor = \<lparr>line = 0, character = 0\<rparr>, active = \<lparr>line = 0, character = 0\<rparr>\<rparr> = Inl IllegalLine
   \<and> outwardsDown_sel [''ab''] \<lparr>anchor = \<lparr>line = 3, character = 0\<rparr>, active = \<lparr>line = 3, character = 2\<rparr>\<rparr> = Inl IllegalLine
   \<and> inwardsDown_sel [''ab''] \<lparr>anchor = \<lparr>line = 3, character = 0\<rparr>, active = \<lparr>line = 3, character = 2\<rparr>\<rparr> = Inl IllegalLine"
  by (simp add: eval_defs)

section \<open>Every result is line-aligned\<close>

text \<open>
  C9. In a document of at least one line, every selection that one of the four
  transforms returns is line-aligned: a caret at column 0 of a line of the document, or
  a non-empty selection from column 0 of a line to column 0 of a line or to the end of
  the document. The transforms of src/src/extension.ts return a selection for every
  input; those of src/unnamed/part_001 return one for every input that starts on a
  line of the document, and whatever they return for another input is line-aligned too.
\<close>

theorem results_line_aligned:
  assumes "1 \<le> lineCount doc"
  shows "(\<forall>f \<in> set [outwardsUp_sel, inwardsUp_sel, outwardsDown_sel, inwardsDown_sel].
            (line (sel_start sel) < length doc \<longrightarrow> (\<exists>out. f doc sel = Inr out))
            \<and> (\<forall>out. f doc sel = Inr out \<longrightarrow> lineAligned doc out))
       \<and> (\<forall>f \<in> set [outwardsUp_ts_sel, inwardsUp_ts_sel, outwardsDown_ts_sel, inwardsDown_ts_sel].
            \<exists>out. f doc sel = Inr out \<and> lineAligned doc out)"
proof -
  from assms have d: "doc \<noteq> []" by (auto simp: lineCount_def)
  have "(line (sel_start sel) < length doc \<longrightarrow> (\<exists>out. f doc sel = Inr out))
            \<and> (\<forall>out. f doc sel = Inr out \<longrightarrow> lineAligned doc out)"
    if "f \<in> set [outwardsUp_sel, inwardsUp_sel, outwardsDown_sel, inwardsDown_sel]" for f
    using that transforms_defined_start_inside [of sel doc] transforms_aligned [OF d, of sel]
    by auto
  moreover have "\<exists>out. f doc sel = Inr out \<and> lineAligned doc out"
    if "f \<in> set [outwardsUp_ts_sel, inwardsUp_ts_sel, outwardsDown_ts_sel, inwardsDown_ts_sel]" for f
    using that transforms_ts_defined [OF d, of sel] transforms_ts_aligned [OF d, of sel]
    by auto
  ultimately show ?thesis by blast
qed

theorem results_line_aligned_witness:
  "1 \<le> lineCount [''ab'']
   \<and> line (sel_start \<lparr>anchor = \<lparr>line = 0, character = 1\<rparr>, active = \<lparr>line = 5, character = 3\<rparr>\<rparr>) < length [''ab'']
   \<and> (\<exists>out. inwardsUp_sel [''ab''] \<lparr>anchor = \<lparr>line = 0, character = 1\<rparr>, active = \<lparr>line = 5, character = 3\<rparr>\<rparr> = Inr out \<and> lineAligned [''ab''] out)
   \<and> (\<exists>out. outwardsDown_ts_sel [''ab''] \<lparr>anchor = \<lparr>line = 0, character = 1\<rparr>, active = \<lparr>line = 5, character = 3\<rparr>\<rparr> = Inr out \<and> lineAligned [''ab''] out)"
proof -
  have l: "1 \<le> lineCount [''ab'']"
    and s: "line (sel_start \<lparr>anchor = \<lparr>line = 0, character = 1\<rparr>, active = \<lparr>line = 5, character = 3\<rparr>\<rparr>) < length [''ab'']"
    by (simp_all add: eval_defs)
  from results_line_aligned [OF l, of "\<lparr>anchor = \<lparr>line = 0, character = 1\<rparr>, active = \<lparr>line = 5, character = 3\<rparr>\<rparr>"] s
  have "\<exists>out. inwardsUp_sel [''ab''] \<lparr>anchor = \<lparr>line = 0, character = 1\<rparr>, active = \<lparr>line = 5, character = 3\<rparr>\<rparr> = Inr out \<and> lineAligned [''ab''] out"
    and "\<exists>out. outwardsDown_ts_sel [''ab''] \<lparr>anchor = \<lparr>line = 0, character = 1\<rparr>, active = \<lparr>line = 5, character = 3\<rparr>\<rparr> = Inr out \<and> lineAligned [''ab''] out"
    by auto
  with l s show ?thesis by blast
qed

end
